theory Spec2Isabelle
  imports Main "HOL-Library.AList" "HOL-Library.Char_ord" "HOL-Library.List_Lexorder"
begin

section \<open>Values of the Python program\<close>

text \<open>
  The program handles the values that \<^verbatim>\<open>response.json()\<close> yields: \<^verbatim>\<open>None\<close>, booleans,
  integers, strings, lists and dictionaries with string keys. A dictionary is an
  association list in insertion order; a Python dictionary has pairwise distinct keys.
  Strings are lists of code points below 256. Numbers with a fraction or an exponent
  (Python floats) are outside this model.
\<close>

datatype json =
    JNull
  | JBool bool
  | JInt int
  | JStr string
  | JList "json list"
  | JDict "(string \<times> json) list"

type_synonym pydict = "(string \<times> json) list"

text \<open>
  The exceptions of the program. \<^verbatim>\<open>ValueErrorListing text items\<close> is a \<^verbatim>\<open>ValueError\<close> whose
  message is \<^verbatim>\<open>text\<close> followed by the \<^verbatim>\<open>items\<close>, comma-separated, in the iteration order
  of a Python set, which the language does not fix.
\<close>

datatype error =
    ValueError string
  | ValueErrorListing string "string set"
  | RuntimeError string
  | AttributeError
  | TypeError
  | JSONDecodeError
  | Propagated string

text \<open>\<^verbatim>\<open>bool(v)\<close>: the truth value Python gives a value.\<close>

fun truthy :: "json \<Rightarrow> bool" where
  "truthy JNull = False"
| "truthy (JBool b) = b"
| "truthy (JInt i) = (i \<noteq> 0)"
| "truthy (JStr s) = (s \<noteq> [])"
| "truthy (JList xs) = (xs \<noteq> [])"
| "truthy (JDict d) = (d \<noteq> [])"

text \<open>\<^verbatim>\<open>d[k] = v\<close>: an existing key keeps its position, a new key goes last.\<close>

definition dict_set :: "pydict \<Rightarrow> string \<Rightarrow> json \<Rightarrow> pydict" where
  "dict_set d k v = AList.update k v d"

text \<open>\<^verbatim>\<open>d.update(other)\<close>: the entries of \<open>other\<close> are stored in their order.\<close>

definition dict_update :: "pydict \<Rightarrow> pydict \<Rightarrow> pydict" where
  "dict_update d other = fold (\<lambda>(k, v) acc. dict_set acc k v) other d"

definition dict_keys :: "pydict \<Rightarrow> string list" where
  "dict_keys d = map fst d"

text \<open>\<^verbatim>\<open>x.get(key, default)\<close>: only a dictionary has the method.\<close>

fun py_get :: "json \<Rightarrow> string \<Rightarrow> json \<Rightarrow> error + json" where
  "py_get (JDict d) k dflt = Inr (case map_of d k of None \<Rightarrow> dflt | Some v \<Rightarrow> v)"
| "py_get _ k dflt = Inl AttributeError"

text \<open>Iterating a value: a list gives its elements, a string its characters, a
  dictionary its keys; the other values are not iterable.\<close>

fun py_iter :: "json \<Rightarrow> error + json list" where
  "py_iter (JList xs) = Inr xs"
| "py_iter (JStr s) = Inr (map (\<lambda>c. JStr [c]) s)"
| "py_iter (JDict d) = Inr (map (\<lambda>kv. JStr (fst kv)) d)"
| "py_iter _ = Inl TypeError"

definition bind_err :: "error + 'a \<Rightarrow> ('a \<Rightarrow> error + 'b) \<Rightarrow> error + 'b" where
  "bind_err m f = (case m of Inl e \<Rightarrow> Inl e | Inr x \<Rightarrow> f x)"

section \<open>Transport and query builder\<close>

text \<open>
  The network is a deterministic environment observed through its call log: the
  answer to a call may depend on how many calls came before it, on the address and on
  the parameters. The world state is the log itself, so the number of calls made is
  the growth of the log.
\<close>

type_synonym call_log = "(string \<times> pydict) list"

type_synonym 'r service = "nat \<Rightarrow> string \<Rightarrow> pydict \<Rightarrow> 'r"

definition logged :: "'r service \<Rightarrow> string \<Rightarrow> pydict \<Rightarrow> call_log \<Rightarrow> 'r \<times> call_log" where
  "logged serve target params log = (serve (length log) target params, log @ [(target, params)])"

text \<open>The keyword arguments of \<^verbatim>\<open>list_filings\<close>.\<close>

record filings_query =
  client_id :: "int option"
  client_name :: "string option"
  lobbyist_id :: "int option"
  lobbyist_name :: "string option"
  page :: int
  page_size :: int
  additional_filters :: "pydict option"

definition identifying_keys :: "string list" where
  "identifying_keys = [''client_id'', ''client_name'', ''lobbyist_id'', ''lobbyist_name'']"

definition build_filters :: "filings_query \<Rightarrow> pydict" where
  "build_filters q =
    (let filters = [(''page'', JInt (page q)), (''page_size'', JInt (page_size q))];
         filters = (case client_id q of
                      Some i \<Rightarrow> dict_set filters ''client_id'' (JInt i)
                    | None \<Rightarrow> filters);
         filters = (case client_name q of
                      Some n \<Rightarrow> if n \<noteq> [] then dict_set filters ''client_name'' (JStr n) else filters
                    | None \<Rightarrow> filters);
         filters = (case lobbyist_id q of
                      Some i \<Rightarrow> dict_set filters ''lobbyist_id'' (JInt i)
                    | None \<Rightarrow> filters);
         filters = (case lobbyist_name q of
                      Some n \<Rightarrow> if n \<noteq> [] then dict_set filters ''lobbyist_name'' (JStr n) else filters
                    | None \<Rightarrow> filters);
         filters = (case additional_filters q of
                      Some extra \<Rightarrow> if extra \<noteq> [] then dict_update filters extra else filters
                    | None \<Rightarrow> filters)
     in filters)"

definition has_filter :: "pydict \<Rightarrow> bool" where
  "has_filter filters = list_ex (\<lambda>key. key \<in> set (dict_keys filters)) identifying_keys"

definition invalid_query :: error where
  "invalid_query = ValueError ''The API requires at least one filter when requesting page > 1.''"

text \<open>
  \<^verbatim>\<open>list_filings\<close>, with the transport (\<^verbatim>\<open>self._request\<close>) as a parameter: a function from
  the path, the parameters and the world to a result and the new world.
\<close>

type_synonym 'w transport = "string \<Rightarrow> pydict \<Rightarrow> 'w \<Rightarrow> (error + json) \<times> 'w"

definition list_filings :: "'w transport \<Rightarrow> filings_query \<Rightarrow> 'w \<Rightarrow> (error + json) \<times> 'w" where
  "list_filings tr q w =
    (let filters = build_filters q in
     if page q > 1 \<and> \<not> has_filter filters then (Inl invalid_query, w)
     else tr ''filings/'' filters w)"

text \<open>The names of the identifying filters that the arguments supply.\<close>

definition supplied_keys :: "filings_query \<Rightarrow> string set" where
  "supplied_keys q =
     (if client_id q \<noteq> None then {''client_id''} else {})
   \<union> (if client_name q \<noteq> None \<and> client_name q \<noteq> Some [] then {''client_name''} else {})
   \<union> (if lobbyist_id q \<noteq> None then {''lobbyist_id''} else {})
   \<union> (if lobbyist_name q \<noteq> None \<and> lobbyist_name q \<noteq> Some [] then {''lobbyist_name''} else {})
   \<union> (case additional_filters q of None \<Rightarrow> {} | Some extra \<Rightarrow> set (dict_keys extra))"

section \<open>Pager\<close>

text \<open>
  \<^verbatim>\<open>list_all_filings\<close>. The loop state is the accumulator, the first response, the page
  number and the world; a server whose \<^verbatim>\<open>next\<close> never ends makes the loop run forever,
  which is the value \<open>None\<close>. The \<open>page\<close> field of the query record is not an argument
  of \<^verbatim>\<open>list_all_filings\<close>: the loop sets it. The pacing sleep between pages does not
  change any value and is left out.
\<close>

definition merge_result :: "json \<Rightarrow> json list \<Rightarrow> int \<Rightarrow> error + json" where
  "merge_result first_response all_results pg =
    (case first_response of
       JDict d \<Rightarrow>
         (let merged = d;
              merged = dict_set merged ''results'' (JList all_results);
              merged = dict_set merged ''fetched_pages'' (JInt pg)
          in Inr (JDict merged))
     | _ \<Rightarrow> Inl TypeError)"

partial_function (option) list_all_loop ::
  "'w transport \<Rightarrow> filings_query \<Rightarrow> int option \<Rightarrow> json list \<Rightarrow> json option \<Rightarrow> int \<Rightarrow> 'w
    \<Rightarrow> ((error + json) \<times> 'w) option" where
  "list_all_loop tr q max_pages all_results first_response pg w =
    (case list_filings tr (q\<lparr>page := pg\<rparr>) w of
       (Inl e, w') \<Rightarrow> Some (Inl e, w')
     | (Inr response, w') \<Rightarrow>
        (let first_response = (case first_response of None \<Rightarrow> response | Some f \<Rightarrow> f) in
         case bind_err (py_get response ''results'' (JList [])) py_iter of
           Inl e \<Rightarrow> Some (Inl e, w')
         | Inr items \<Rightarrow>
            (let all_results = all_results @ items in
             case py_get response ''next'' JNull of
               Inl e \<Rightarrow> Some (Inl e, w')
             | Inr nxt \<Rightarrow>
                (let next_page_exists = truthy nxt;
                     next_page_exists =
                       (case max_pages of
                          Some m \<Rightarrow> if pg \<ge> m then False else next_page_exists
                        | None \<Rightarrow> next_page_exists)
                 in if \<not> next_page_exists then Some (merge_result first_response all_results pg, w')
                    else list_all_loop tr q max_pages all_results (Some first_response) (pg + 1) w'))))"

declare list_all_loop.simps [code]

definition list_all_filings ::
  "'w transport \<Rightarrow> filings_query \<Rightarrow> int option \<Rightarrow> 'w \<Rightarrow> ((error + json) \<times> 'w) option" where
  "list_all_filings tr q max_pages w = list_all_loop tr q max_pages [] None 1 w"

text \<open>A Page Response: a dictionary whose \<^verbatim>\<open>results\<close> is a list.\<close>

fun page_response :: "json \<Rightarrow> bool" where
  "page_response (JDict d) = (case map_of d ''results'' of Some (JList rs) \<Rightarrow> True | _ \<Rightarrow> False)"
| "page_response _ = False"

fun results_of :: "json \<Rightarrow> json list" where
  "results_of (JDict d) = (case map_of d ''results'' of Some (JList rs) \<Rightarrow> rs | _ \<Rightarrow> [])"
| "results_of _ = []"

fun next_of :: "json \<Rightarrow> json" where
  "next_of (JDict d) = (case map_of d ''next'' of Some v \<Rightarrow> v | None \<Rightarrow> JNull)"
| "next_of _ = JNull"


text \<open>The requests for \<open>n\<close> consecutive pages starting at page \<open>pg\<close>.\<close>

primrec page_calls :: "filings_query \<Rightarrow> int \<Rightarrow> nat \<Rightarrow> call_log" where
  "page_calls q pg 0 = []"
| "page_calls q pg (Suc n) = (''filings/'', build_filters (q\<lparr>page := pg\<rparr>)) # page_calls q (pg + 1) n"

text \<open>The service answers the page requests numbered from \<open>n\<close> with the given pages.\<close>

primrec serves :: "(error + json) service \<Rightarrow> filings_query \<Rightarrow> nat \<Rightarrow> int \<Rightarrow> json list \<Rightarrow> bool" where
  "serves serve q n pg [] = True"
| "serves serve q n pg (p # ps) =
     (serve n ''filings/'' (build_filters (q\<lparr>page := pg\<rparr>)) = Inr p \<and> serves serve q (Suc n) (pg + 1) ps)"

text \<open>Example data: a query with a client id and a service whose fourth page is the last.\<close>

definition example_query :: filings_query where
  "example_query = \<lparr>client_id = Some 5, client_name = None, lobbyist_id = None,
       lobbyist_name = None, page = 1, page_size = 25, additional_filters = None\<rparr>"

definition example_page :: "nat \<Rightarrow> json" where
  "example_page n = JDict [(''count'', JInt 4),
       (''next'', if n < 3 then JStr ''https://lda.senate.gov/api/v1/filings/?page=next'' else JNull),
       (''results'', JList [JInt (int n)])]"

definition example_service :: "(error + json) service" where
  "example_service n target params = Inr (example_page n)"

section \<open>Transport\<close>

text \<open>\<^verbatim>\<open>str(n)\<close> for an integer: its decimal digits, with a minus sign when negative.\<close>

definition digit_char :: "nat \<Rightarrow> char" where
  "digit_char d = ''0123456789'' ! d"

fun str_nat :: "nat \<Rightarrow> string" where
  "str_nat n = (if n < 10 then [digit_char n] else str_nat (n div 10) @ [digit_char (n mod 10)])"

declare str_nat.simps [simp del]

definition str_int :: "int \<Rightarrow> string" where
  "str_int i = (if i < 0 then CHR ''-'' # str_nat (nat (- i)) else str_nat (nat i))"

definition lstrip_char :: "char \<Rightarrow> string \<Rightarrow> string" where
  "lstrip_char c s = dropWhile (\<lambda>x. x = c) s"

definition rstrip_char :: "char \<Rightarrow> string \<Rightarrow> string" where
  "rstrip_char c s = rev (dropWhile (\<lambda>x. x = c) (rev s))"

text \<open>
  The client object. The timeout is carried as the text that \<^verbatim>\<open>str\<close> gives the
  configured number (\<^verbatim>\<open>60.0\<close> by default): the program passes it to the HTTP library
  and prints it in the timeout message, nothing else.
\<close>

record client =
  base_url :: string
  timeout :: string

definition new_client :: "string \<Rightarrow> string \<Rightarrow> string \<Rightarrow> error + client" where
  "new_client token url tmo =
    (if token = [] then Inl (ValueError ''API token is required.'')
     else Inr \<lparr>base_url = rstrip_char CHR ''/'' url, timeout = tmo\<rparr>)"

text \<open>
  What \<^verbatim>\<open>session.get\<close> can do: raise \<^verbatim>\<open>requests.exceptions.Timeout\<close>, raise another
  exception, or return a response. Of a response the program reads the status code,
  the body text and \<^verbatim>\<open>response.json()\<close>, which is the parsed body or the decoding error.
\<close>

record response =
  status_code :: int
  text_of :: string
  parsed :: "error + json"

datatype get_outcome = TimedOut | Raised string | Responded response

type_synonym 'w session = "string \<Rightarrow> pydict \<Rightarrow> 'w \<Rightarrow> get_outcome \<times> 'w"

definition timeout_error :: "string \<Rightarrow> client \<Rightarrow> error" where
  "timeout_error url c =
     RuntimeError (''Request to '' @ url @ '' timed out after '' @ timeout c @ '' seconds.'')"

text \<open>The retry loop of \<^verbatim>\<open>_request\<close>; the one-second sleep before the retry is left out.\<close>

function request_loop ::
  "'w session \<Rightarrow> client \<Rightarrow> string \<Rightarrow> pydict \<Rightarrow> nat \<Rightarrow> 'w \<Rightarrow> (error + response) \<times> 'w" where
  "request_loop get c url params attempts w =
    (case get url params w of
       (Responded r, w') \<Rightarrow> (Inr r, w')
     | (Raised e, w') \<Rightarrow> (Inl (Propagated e), w')
     | (TimedOut, w') \<Rightarrow>
         if attempts + 1 \<ge> 2 then (Inl (timeout_error url c), w')
         else request_loop get c url params (attempts + 1) w')"
  by pat_completeness auto
termination
  by (relation "measure (\<lambda>(get, c, url, params, attempts, w). 2 - attempts)") auto

text \<open>
  \<^verbatim>\<open>response.raise_for_status()\<close> of the requests library raises \<^verbatim>\<open>HTTPError\<close> for the
  client-error and server-error status codes, 400 to 599.
\<close>

definition raise_for_status :: "response \<Rightarrow> bool" where
  "raise_for_status r = (400 \<le> status_code r \<and> status_code r < 600)"

definition request :: "'w session \<Rightarrow> client \<Rightarrow> 'w transport" where
  "request get c path params w =
    (let url = base_url c @ ''/'' @ lstrip_char CHR ''/'' path in
     case request_loop get c url params 0 w of
       (Inl e, w') \<Rightarrow> (Inl e, w')
     | (Inr r, w') \<Rightarrow>
         if raise_for_status r
         then (Inl (RuntimeError (''Request failed: '' @ str_int (status_code r) @ '' '' @ text_of r)), w')
         else (parsed r, w'))"


definition example_client :: client where
  "example_client = \<lparr>base_url = ''https://lda.senate.gov/api/v1'', timeout = ''60.0''\<rparr>"

section \<open>Strings\<close>

definition backslash :: char where "backslash = CHR 0x5C"
definition dquote :: char where "dquote = CHR 0x22"
definition squote :: char where "squote = CHR 0x27"

text \<open>The whitespace of \<^verbatim>\<open>str.split()\<close> and \<^verbatim>\<open>str.strip()\<close> among the code points below 256.\<close>

definition whitespace :: "char list" where
  "whitespace = [CHR 0x09, CHR 0x0A, CHR 0x0B, CHR 0x0C, CHR 0x0D, CHR 0x1C, CHR 0x1D,
                 CHR 0x1E, CHR 0x1F, CHR 0x20, CHR 0x85, CHR 0xA0]"

definition is_space :: "char \<Rightarrow> bool" where
  "is_space c = (c \<in> set whitespace)"

text \<open>\<^verbatim>\<open>s.split()\<close>: the maximal runs of characters that are not whitespace.\<close>

function py_split :: "string \<Rightarrow> string list" where
  "py_split s =
     (let s' = dropWhile is_space s in
      if s' = [] then []
      else takeWhile (\<lambda>c. \<not> is_space c) s' # py_split (dropWhile (\<lambda>c. \<not> is_space c) s'))"
  by pat_completeness auto
termination
proof (relation "measure length", goal_cases)
  case 1
  then show ?case by simp
next
  case (2 s s')
  then have "s' \<noteq> []" by simp
  then obtain a rest where s': "s' = a # rest" by (meson list.exhaust)
  have ne: "dropWhile is_space s \<noteq> []" using 2 by simp
  have "\<not> is_space (hd (dropWhile is_space s))"
    by (rule hd_dropWhile[OF ne])
  moreover have "hd (dropWhile is_space s) = a" using 2 s' by (metis list.sel(1))
  ultimately have a: "\<not> is_space a" by simp
  have "length (dropWhile (\<lambda>c. \<not> is_space c) rest) \<le> length rest"
    by (rule length_dropWhile_le)
  then have "length (dropWhile (\<lambda>c. \<not> is_space c) s') < length s'"
    using a s' by simp
  moreover have "length s' \<le> length s"
    using 2 by (simp add: length_dropWhile_le)
  ultimately show ?case by simp
qed

declare py_split.simps [simp del]

definition lstrip_ws :: "string \<Rightarrow> string" where
  "lstrip_ws s = dropWhile is_space s"

definition rstrip_ws :: "string \<Rightarrow> string" where
  "rstrip_ws s = rev (dropWhile is_space (rev s))"

text \<open>\<^verbatim>\<open>s.strip()\<close>.\<close>

definition py_strip :: "string \<Rightarrow> string" where
  "py_strip s = rstrip_ws (lstrip_ws s)"

text \<open>\<^verbatim>\<open>sep.join(xs)\<close> for strings.\<close>

fun join :: "string \<Rightarrow> string list \<Rightarrow> string" where
  "join sep [] = []"
| "join sep [x] = x"
| "join sep (x # y # ys) = x @ sep @ join sep (y # ys)"

text \<open>\<^verbatim>\<open>sep.join(xs)\<close> for values: every item must be a string.\<close>

fun str_items :: "json list \<Rightarrow> error + string list" where
  "str_items [] = Inr []"
| "str_items (JStr s # vs) = bind_err (str_items vs) (\<lambda>ss. Inr (s # ss))"
| "str_items (_ # vs) = Inl TypeError"

definition py_join :: "string \<Rightarrow> json list \<Rightarrow> error + string" where
  "py_join sep vs = bind_err (str_items vs) (\<lambda>ss. Inr (join sep ss))"

text \<open>
  \<^verbatim>\<open>repr\<close> of a string: single quotes unless the string has a single quote and no
  double quote; the quote and the backslash are escaped, tab, newline and carriage
  return have their short escapes, and the other characters that are not printable
  are written \<^verbatim>\<open>\xhh\<close>.
\<close>

definition hex_char :: "nat \<Rightarrow> char" where
  "hex_char d = ''0123456789abcdef'' ! d"

definition printable :: "char \<Rightarrow> bool" where
  "printable c = (let n = (of_char c :: nat) in
      (32 \<le> n \<and> n < 127) \<or> (161 \<le> n \<and> n \<noteq> 173))"

definition repr_char :: "char \<Rightarrow> char \<Rightarrow> string" where
  "repr_char q c =
    (if c = q \<or> c = backslash then [backslash, c]
     else if c = CHR 0x09 then [backslash, CHR ''t'']
     else if c = CHR 0x0A then [backslash, CHR ''n'']
     else if c = CHR 0x0D then [backslash, CHR ''r'']
     else if printable c then [c]
     else [backslash, CHR ''x'', hex_char (of_char c div 16), hex_char (of_char c mod 16)])"

definition repr_str :: "string \<Rightarrow> string" where
  "repr_str s =
    (let q = (if squote \<in> set s \<and> dquote \<notin> set s then dquote else squote)
     in q # concat (map (repr_char q) s) @ [q])"

text \<open>\<^verbatim>\<open>repr(v)\<close> and \<^verbatim>\<open>str(v)\<close>; an f-string field formats a value as \<^verbatim>\<open>str\<close> does.\<close>

fun py_repr :: "json \<Rightarrow> string" where
  "py_repr JNull = ''None''"
| "py_repr (JBool b) = (if b then ''True'' else ''False'')"
| "py_repr (JInt i) = str_int i"
| "py_repr (JStr s) = repr_str s"
| "py_repr (JList xs) = ''['' @ join '', '' (map py_repr xs) @ '']''"
| "py_repr (JDict d) =
     ''{'' @ join '', '' (map (\<lambda>kv. repr_str (fst kv) @ '': '' @ py_repr (snd kv)) d) @ ''}''"

fun py_str :: "json \<Rightarrow> string" where
  "py_str (JStr s) = s"
| "py_str v = py_repr v"


section \<open>Normalizer: the simplified row\<close>

text \<open>\<^verbatim>\<open>a or b\<close>, where evaluating \<open>b\<close> may raise and is skipped when \<open>a\<close> is truthy.\<close>

definition py_or :: "json \<Rightarrow> json \<Rightarrow> json" where
  "py_or a b = (if truthy a then a else b)"

definition or_else :: "json \<Rightarrow> error + json \<Rightarrow> error + json" where
  "or_else a b = (if truthy a then Inr a else b)"

text \<open>\<^verbatim>\<open>x.get(k1) or y.get(k2)\<close> and \<^verbatim>\<open>x.get(k1) or y.get(k2) or z.get(k3)\<close>.\<close>

definition get_or :: "json \<Rightarrow> string \<Rightarrow> json \<Rightarrow> string \<Rightarrow> error + json" where
  "get_or x k1 y k2 = bind_err (py_get x k1 JNull) (\<lambda>a. or_else a (py_get y k2 JNull))"

definition get_or3 ::
  "json \<Rightarrow> string \<Rightarrow> json \<Rightarrow> string \<Rightarrow> json \<Rightarrow> string \<Rightarrow> error + json" where
  "get_or3 x k1 y k2 z k3 = bind_err (get_or x k1 y k2) (\<lambda>a. or_else a (py_get z k3 JNull))"

text \<open>
  \<^verbatim>\<open>_unique\<close>. Its argument is a generator, whose items are produced one at a time and
  may raise: an item is a value or the error raised in its place. Membership in the
  set \<^verbatim>\<open>seen\<close> hashes the value, which fails for lists and dictionaries, and compares
  as Python does, where \<^verbatim>\<open>True\<close> equals \<^verbatim>\<open>1\<close>.
\<close>

fun hashable :: "json \<Rightarrow> bool" where
  "hashable (JList xs) = False"
| "hashable (JDict d) = False"
| "hashable _ = True"

fun hash_key :: "json \<Rightarrow> json" where
  "hash_key (JBool b) = JInt (if b then 1 else 0)"
| "hash_key v = v"

fun unique_loop :: "json set \<Rightarrow> json list \<Rightarrow> (error + json) list \<Rightarrow> error + json list" where
  "unique_loop seen ordered [] = Inr ordered"
| "unique_loop seen ordered (Inl e # values) = Inl e"
| "unique_loop seen ordered (Inr v # values) =
     (if \<not> truthy v then unique_loop seen ordered values
      else if \<not> hashable v then Inl TypeError
      else if hash_key v \<in> seen then unique_loop seen ordered values
      else unique_loop (insert (hash_key v) seen) (ordered @ [v]) values)"

definition unique :: "(error + json) list \<Rightarrow> error + json list" where
  "unique values = unique_loop {} [] values"

definition normalize_text :: "json \<Rightarrow> string" where
  "normalize_text v = (if v = JNull then [] else join '' '' (py_split (py_str v)))"

definition format_address :: "json list \<Rightarrow> string" where
  "format_address parts =
     join '', '' (map (\<lambda>part. py_strip (py_str part))
                     (filter (\<lambda>part. truthy part \<and> py_strip (py_str part) \<noteq> []) parts))"

text \<open>The two generators of \<^verbatim>\<open>_simplified_row\<close>; the outermost iterable of a generator
  expression is evaluated when the generator is created.\<close>

definition government_entity_names :: "json \<Rightarrow> error + (error + json) list" where
  "government_entity_names record =
     bind_err (py_get record ''lobbying_activities'' (JList [])) (\<lambda>activities.
     bind_err (py_iter activities) (\<lambda>acts.
     Inr (concat (map (\<lambda>activity.
            case bind_err (py_get activity ''government_entities'' (JList [])) py_iter of
              Inl e \<Rightarrow> [Inl e]
            | Inr entities \<Rightarrow> map (\<lambda>entity. py_get entity ''name'' JNull) entities) acts))))"

definition activity_description_texts :: "json \<Rightarrow> error + (error + json) list" where
  "activity_description_texts record =
     bind_err (py_get record ''lobbying_activities'' (JList [])) (\<lambda>activities.
     bind_err (py_iter activities) (\<lambda>acts.
     Inr (map (\<lambda>activity.
            bind_err (py_get activity ''description'' JNull)
              (\<lambda>d. Inr (JStr (normalize_text d)))) acts)))"

definition simplified_row :: "json \<Rightarrow> error + pydict" where
  "simplified_row record =
     bind_err (py_get record ''registrant'' JNull) (\<lambda>r. let registrant = py_or r (JDict []) in
     bind_err (py_get record ''client'' JNull) (\<lambda>c. let client = py_or c (JDict []) in
     bind_err (get_or record ''registrant_address_1'' registrant ''address_1'') (\<lambda>addr_line_1.
     bind_err (get_or record ''registrant_address_2'' registrant ''address_2'') (\<lambda>addr_line_2.
     bind_err (get_or record ''registrant_city'' registrant ''city'') (\<lambda>city.
     bind_err (get_or3 record ''registrant_state'' registrant ''state_display''
                 registrant ''state'') (\<lambda>state.
     bind_err (get_or record ''registrant_zip'' registrant ''zip'') (\<lambda>postal.
     bind_err (get_or3 record ''registrant_country'' registrant ''country_display''
                 registrant ''country'') (\<lambda>country.
     let registrant_address =
           format_address [addr_line_1, addr_line_2, city, state, postal, country] in
     bind_err (get_or client ''state_display'' client ''state'') (\<lambda>client_state.
     bind_err (get_or client ''country_display'' client ''country'') (\<lambda>client_country.
     let client_location = format_address [client_state, client_country] in
     bind_err (get_or client ''ppb_state_display'' client ''ppb_state'') (\<lambda>ppb_state.
     bind_err (get_or client ''ppb_country_display'' client ''ppb_country'') (\<lambda>ppb_country.
     let client_ppb_location = format_address [ppb_state, ppb_country] in
     bind_err (bind_err (government_entity_names record) unique) (\<lambda>government_entities.
     bind_err (bind_err (activity_description_texts record) unique) (\<lambda>activity_descriptions.
     bind_err (py_get registrant ''id'' JNull) (\<lambda>registrant_id.
     bind_err (get_or client ''client_id'' client ''id'') (\<lambda>client_legacy_id.
     let senate_id =
           (if truthy registrant_id \<and> truthy client_legacy_id
            then JStr (py_str registrant_id @ ''-'' @ py_str client_legacy_id)
            else JNull) in
     bind_err (py_get registrant ''name'' JNull) (\<lambda>v_registrant_name.
     bind_err (py_get registrant ''contact_name'' JNull) (\<lambda>v_registrant_contact.
     bind_err (py_get registrant ''contact_telephone'' JNull) (\<lambda>v_registrant_phone.
     bind_err (py_get client ''name'' JNull) (\<lambda>v_client_name.
     bind_err (py_get record ''filing_year'' JNull) (\<lambda>filing_year.
     bind_err (get_or record ''filing_period_display'' record ''filing_period'') (\<lambda>filing_period.
     bind_err (get_or record ''filing_type_display'' record ''filing_type'') (\<lambda>filing_type.
     bind_err (py_join '' | ''
                 (filter truthy [JStr (py_str filing_year), filing_period, filing_type]))
       (\<lambda>filing_information.
     bind_err (py_get record ''income'' JNull) (\<lambda>income.
     bind_err (py_get record ''expenses'' JNull) (\<lambda>expenses.
     bind_err (get_or record ''expenses_method_display'' record ''expenses_method'')
       (\<lambda>expenses_method.
     bind_err (py_get record ''dt_posted'' JNull) (\<lambda>dt_posted.
     bind_err (py_join ''; '' activity_descriptions) (\<lambda>description.
     bind_err (py_join ''; '' government_entities) (\<lambda>government_entities_text.
     bind_err (py_get record ''filing_uuid'' JNull) (\<lambda>filing_uuid.
     bind_err (py_get record ''filing_document_url'' JNull) (\<lambda>filing_document_url.
     Inr [(''registrant_name'', v_registrant_name),
          (''registrant_address'', JStr registrant_address),
          (''registrant_contact'', v_registrant_contact),
          (''registrant_phone'', v_registrant_phone),
          (''senate_id'', senate_id),
          (''client_name'', v_client_name),
          (''filing_information'', JStr filing_information),
          (''income'', income),
          (''expenses'', expenses),
          (''expenses_method'', expenses_method),
          (''dt_posted'', dt_posted),
          (''description'', JStr description),
          (''government_entities'', JStr government_entities_text),
          (''filing_uuid'', filing_uuid),
          (''filing_document_url'', filing_document_url)]
     ))))))))))))))))))))))))))))))))"

definition SIMPLE_CSV_FIELDS :: "string list" where
  "SIMPLE_CSV_FIELDS = [''registrant_name'', ''registrant_address'', ''registrant_contact'',
     ''registrant_phone'', ''senate_id'', ''client_name'', ''filing_information'', ''income'',
     ''expenses'', ''expenses_method'', ''dt_posted'', ''description'', ''government_entities'',
     ''filing_uuid'', ''filing_document_url'']"

text \<open>Example records.\<close>

definition scenario_record :: json where
  "scenario_record = JDict [(''filing_uuid'', JStr ''abc''),
     (''registrant'', JDict [(''name'', JStr ''R'')]),
     (''client'', JDict [(''name'', JStr ''C'')]),
     (''filing_year'', JInt 2024), (''income'', JInt 1000)]"

definition activities_record :: json where
  "activities_record = JDict [
     (''registrant'', JDict [(''id'', JInt 12)]),
     (''client'', JDict [(''id'', JInt 34)]),
     (''lobbying_activities'', JList [
        JDict [(''description'', JStr ''A'')],
        JDict [(''description'', JStr ''A'')],
        JDict [(''description'', JStr ''B'')],
        JDict [(''description'', JStr [])]])]"



definition zero_client_record :: json where
  "zero_client_record = JDict [
     (''registrant'', JDict [(''id'', JInt 12)]),
     (''client'', JDict [(''client_id'', JInt 0), (''id'', JInt 34)])]"

definition legacy_client_record :: json where
  "legacy_client_record = JDict [
     (''registrant'', JDict [(''id'', JInt 12)]),
     (''client'', JDict [(''client_id'', JInt 34), (''id'', JInt 99)])]"

text \<open>\<open>lookup x k\<close> is the field \<open>k\<close> of \<open>x\<close>, and \<^verbatim>\<open>None\<close> where there is no such field.\<close>

fun lookup :: "json \<Rightarrow> string \<Rightarrow> json" where
  "lookup (JDict d) k = (case map_of d k of Some v \<Rightarrow> v | None \<Rightarrow> JNull)"
| "lookup _ k = JNull"



definition first_seen :: "'a list \<Rightarrow> 'a list" where
  "first_seen xs = rev (remdups (rev xs))"


section \<open>Normalizer: flatten\<close>

text \<open>
  \<^verbatim>\<open>json.dumps(value, ensure_ascii=False)\<close> with the default separators: in a string the
  double quote, the backslash and the control characters are escaped, everything
  else is written as it is.
\<close>

definition json_escape_char :: "char \<Rightarrow> string" where
  "json_escape_char c =
    (if c = dquote then [backslash, dquote]
     else if c = backslash then [backslash, backslash]
     else if c = CHR 0x0A then [backslash, CHR ''n'']
     else if c = CHR 0x0D then [backslash, CHR ''r'']
     else if c = CHR 0x09 then [backslash, CHR ''t'']
     else if c = CHR 0x08 then [backslash, CHR ''b'']
     else if c = CHR 0x0C then [backslash, CHR ''f'']
     else if (of_char c :: nat) < 32
       then [backslash, CHR ''u'', CHR ''0'', CHR ''0'',
             hex_char (of_char c div 16), hex_char (of_char c mod 16)]
     else [c])"

definition json_string :: "string \<Rightarrow> string" where
  "json_string s = dquote # concat (map json_escape_char s) @ [dquote]"

fun json_dumps :: "json \<Rightarrow> string" where
  "json_dumps JNull = ''null''"
| "json_dumps (JBool b) = (if b then ''true'' else ''false'')"
| "json_dumps (JInt i) = str_int i"
| "json_dumps (JStr s) = json_string s"
| "json_dumps (JList xs) = ''['' @ join '', '' (map json_dumps xs) @ '']''"
| "json_dumps (JDict d) =
     ''{'' @ join '', '' (map (\<lambda>kv. json_string (fst kv) @ '': '' @ json_dumps (snd kv)) d) @ ''}''"

text \<open>\<^verbatim>\<open>_flatten_record\<close>: the loop over the entries of the record updates \<^verbatim>\<open>items\<close>.\<close>

definition new_key :: "string \<Rightarrow> string \<Rightarrow> string \<Rightarrow> string" where
  "new_key prefix sep key = (if prefix \<noteq> [] then prefix @ sep @ key else key)"

lemma size_entry: "(k, v) \<in> set d \<Longrightarrow> size v < size (JDict d)"
  by (induction d) auto

function flatten_record :: "pydict \<Rightarrow> string \<Rightarrow> string \<Rightarrow> pydict" where
  "flatten_record record prefix sep =
     fold (\<lambda>(key, value) items.
             case value of
               JDict d \<Rightarrow> dict_update items (flatten_record d (new_key prefix sep key) sep)
             | JList xs \<Rightarrow> dict_set items (new_key prefix sep key) (JStr (json_dumps value))
             | _ \<Rightarrow> dict_set items (new_key prefix sep key) value)
          record []"
  by pat_completeness auto
termination
  by (relation "measure (\<lambda>(r, p, s). size (JDict r))") (auto dest: size_entry)

declare flatten_record.simps [simp del]

section \<open>Exporters\<close>

text \<open>
  \<^verbatim>\<open>csv.DictWriter\<close>: a row dictionary becomes the list of its values in field order,
  \<^verbatim>\<open>restval\<close> standing for a missing key; with \<^verbatim>\<open>extrasaction\<close> set to \<^verbatim>\<open>raise\<close>, the
  default, a key that is no field name is an error. The file is modelled as the list
  of the records written, each a list of cell texts; quoting and line ends are below
  this model.
\<close>

record dict_writer =
  fieldnames :: "string list"
  restval :: json
  extrasaction :: string

text \<open>
  The error for \<^verbatim>\<open>wrong_fields = rowdict.keys() - self.fieldnames\<close>, a set: its message
  joins the \<^verbatim>\<open>repr\<close> of the members in the set's iteration order, so the text is fixed
  only when there is one member.
\<close>

definition wrong_fields_error :: "string list \<Rightarrow> error" where
  "wrong_fields_error wrong_fields =
    (case remdups wrong_fields of
       [k] \<Rightarrow> ValueError (''dict contains fields not in fieldnames: '' @ repr_str k)
     | ks \<Rightarrow> ValueErrorListing ''dict contains fields not in fieldnames: ''
               (set (map repr_str ks)))"

definition dict_to_list :: "dict_writer \<Rightarrow> pydict \<Rightarrow> error + json list" where
  "dict_to_list w rowdict =
    (let wrong_fields = filter (\<lambda>k. k \<notin> set (fieldnames w)) (dict_keys rowdict) in
     if extrasaction w = ''raise'' \<and> wrong_fields \<noteq> []
     then Inl (wrong_fields_error wrong_fields)
     else Inr (map (\<lambda>key. case map_of rowdict key of Some v \<Rightarrow> v | None \<Rightarrow> restval w)
                  (fieldnames w)))"

text \<open>The text of a cell: nothing for \<^verbatim>\<open>None\<close>, otherwise \<^verbatim>\<open>str\<close> of the value.\<close>

definition cell_text :: "json \<Rightarrow> string" where
  "cell_text v = (if v = JNull then [] else py_str v)"

type_synonym csv_file = "string list list"

fun write_rows :: "dict_writer \<Rightarrow> pydict list \<Rightarrow> csv_file \<Rightarrow> (error + unit) \<times> csv_file" where
  "write_rows w [] file = (Inr (), file)"
| "write_rows w (row # rows) file =
     (case dict_to_list w row of
        Inl e \<Rightarrow> (Inl e, file)
      | Inr cells \<Rightarrow> write_rows w rows (file @ [map cell_text cells]))"

definition resolve_fields :: "string list option \<Rightarrow> pydict list \<Rightarrow> string list" where
  "resolve_fields names rows =
    (case names of
       Some fs \<Rightarrow> fs
     | None \<Rightarrow> sort (remdups (concat (map dict_keys rows))))"

text \<open>\<^verbatim>\<open>_write_csv\<close>: opening the path for writing empties the file; the header comes first.\<close>

definition write_csv :: "pydict list \<Rightarrow> string list option \<Rightarrow> (error + unit) \<times> csv_file" where
  "write_csv rows names =
    (let flattened_rows = rows;
         resolved_fields = resolve_fields names flattened_rows;
         writer = \<lparr>fieldnames = resolved_fields, restval = JStr [], extrasaction = ''raise''\<rparr>
     in write_rows writer flattened_rows [fieldnames writer])"

text \<open>\<^verbatim>\<open>build_csv\<close> of the dashboard, the same writer with \<^verbatim>\<open>extrasaction="ignore"\<close>.\<close>

definition build_csv :: "pydict list \<Rightarrow> string list option \<Rightarrow> (error + unit) \<times> csv_file" where
  "build_csv rows names =
    (let resolved_fieldnames = resolve_fields names rows;
         writer = \<lparr>fieldnames = resolved_fieldnames, restval = JStr [], extrasaction = ''ignore''\<rparr>
     in write_rows writer rows [fieldnames writer])"

text \<open>A value with no nested structure: neither a mapping nor a list.\<close>

fun scalar :: "json \<Rightarrow> bool" where
  "scalar (JList xs) = False"
| "scalar (JDict d) = False"
| "scalar _ = True"

definition flat_example :: pydict where
  "flat_example = [(''filing_uuid'', JStr ''abc''), (''filing_year'', JInt 2024),
                   (''income'', JNull), (''amended'', JBool False)]"

definition csv_row_example :: pydict where
  "csv_row_example = [(''a'', JStr ''1''), (''b'', JStr ''2'')]"

section \<open>Reading JSON text\<close>

text \<open>
  \<^verbatim>\<open>json.loads\<close>, the reader that the round trip of a flattened list is measured with:
  a recursive-descent reader of the JSON grammar as Python's decoder accepts it. The
  result \<open>None\<close> stands for a decoding error, and also for a text whose value is
  outside this model (a number with a fraction or an exponent, a \<^verbatim>\<open>\u\<close> escape of a
  code point above 255). The recursion is bounded by a counter set from the length of
  the text.
\<close>

definition json_ws :: "char \<Rightarrow> bool" where
  "json_ws c = (c \<in> set [CHR '' '', CHR 0x09, CHR 0x0A, CHR 0x0D])"

definition skip_ws :: "string \<Rightarrow> string" where
  "skip_ws s = dropWhile json_ws s"

definition is_digit :: "char \<Rightarrow> bool" where
  "is_digit c = (c \<in> set ''0123456789'')"

definition digit_val :: "char \<Rightarrow> nat" where
  "digit_val c = of_char c - 48"

definition nat_of_digits :: "string \<Rightarrow> nat" where
  "nat_of_digits ds = foldl (\<lambda>n c. 10 * n + digit_val c) 0 ds"

definition hex_val :: "char \<Rightarrow> nat option" where
  "hex_val c =
    (let n = (of_char c :: nat) in
     if 48 \<le> n \<and> n \<le> 57 then Some (n - 48)
     else if 97 \<le> n \<and> n \<le> 102 then Some (n - 87)
     else if 65 \<le> n \<and> n \<le> 70 then Some (n - 55)
     else None)"

definition unescape :: "char \<Rightarrow> char option" where
  "unescape e =
    (if e = dquote then Some dquote
     else if e = backslash then Some backslash
     else if e = CHR ''/'' then Some CHR ''/''
     else if e = CHR ''b'' then Some (CHR 0x08)
     else if e = CHR ''f'' then Some (CHR 0x0C)
     else if e = CHR ''n'' then Some (CHR 0x0A)
     else if e = CHR ''r'' then Some (CHR 0x0D)
     else if e = CHR ''t'' then Some (CHR 0x09)
     else None)"

definition prepend :: "char \<Rightarrow> (string \<times> string) option \<Rightarrow> (string \<times> string) option" where
  "prepend c r = (case r of None \<Rightarrow> None | Some (s, rest) \<Rightarrow> Some (c # s, rest))"

text \<open>The text after an opening quote, up to the closing one.\<close>

fun scan_string :: "string \<Rightarrow> (string \<times> string) option" where
  "scan_string [] = None"
| "scan_string (c # cs) =
    (if c = dquote then Some ([], cs)
     else if c = backslash then
       (case cs of
          [] \<Rightarrow> None
        | e # cs' \<Rightarrow>
            if e = CHR ''u'' then
              (case cs' of
                 h1 # h2 # h3 # h4 # cs'' \<Rightarrow>
                   (case (hex_val h1, hex_val h2, hex_val h3, hex_val h4) of
                      (Some a, Some b, Some c3, Some d) \<Rightarrow>
                        if a = 0 \<and> b = 0 then prepend (char_of (16 * c3 + d)) (scan_string cs'')
                        else None
                    | _ \<Rightarrow> None)
               | _ \<Rightarrow> None)
            else (case unescape e of
                    None \<Rightarrow> None
                  | Some ch \<Rightarrow> prepend ch (scan_string cs')))
     else if (of_char c :: nat) < 32 then None
     else prepend c (scan_string cs))"

text \<open>A number: an optional minus sign, then \<^verbatim>\<open>0\<close> or digits that start with a
  non-zero digit; a fraction or an exponent after them makes a float.\<close>

definition float_tail :: "string \<Rightarrow> bool" where
  "float_tail r =
    (case r of
       c # d # r' \<Rightarrow>
         (c = CHR ''.'' \<and> is_digit d)
         \<or> ((c = CHR ''e'' \<or> c = CHR ''E'')
            \<and> (is_digit d \<or> ((d = CHR ''+'' \<or> d = CHR ''-'') \<and> r' \<noteq> [] \<and> is_digit (hd r'))))
     | _ \<Rightarrow> False)"

definition parse_digits :: "bool \<Rightarrow> string \<Rightarrow> (json \<times> string) option" where
  "parse_digits neg s =
    (case s of
       [] \<Rightarrow> None
     | c # cs \<Rightarrow>
         if \<not> is_digit c then None
         else
           (let ds = (if c = CHR ''0'' then [c] else takeWhile is_digit s);
                r = drop (length ds) s
            in if float_tail r then None
               else Some (JInt (if neg then - int (nat_of_digits ds) else int (nat_of_digits ds)), r)))"

definition parse_number :: "string \<Rightarrow> (json \<times> string) option" where
  "parse_number s =
    (if s \<noteq> [] \<and> hd s = CHR ''-'' then parse_digits True (tl s) else parse_digits False s)"

fun parse_value :: "nat \<Rightarrow> string \<Rightarrow> (json \<times> string) option"
  and parse_elems :: "nat \<Rightarrow> string \<Rightarrow> (json list \<times> string) option"
  and parse_members :: "nat \<Rightarrow> string \<Rightarrow> (pydict \<times> string) option" where
  "parse_value 0 s = None"
| "parse_value (Suc n) s =
    (case s of
       [] \<Rightarrow> None
     | c # cs \<Rightarrow>
         if c = dquote then
           (case scan_string cs of None \<Rightarrow> None | Some (str, r) \<Rightarrow> Some (JStr str, r))
         else if c = CHR ''{'' then
           (case skip_ws cs of
              [] \<Rightarrow> None
            | c' # r \<Rightarrow>
                if c' = CHR ''}'' then Some (JDict [], r)
                else (case parse_members n (c' # r) of
                        None \<Rightarrow> None
                      | Some (kvs, r') \<Rightarrow> Some (JDict (dict_update [] kvs), r')))
         else if c = CHR ''['' then
           (case skip_ws cs of
              [] \<Rightarrow> None
            | c' # r \<Rightarrow>
                if c' = CHR '']'' then Some (JList [], r)
                else (case parse_elems n (c' # r) of
                        None \<Rightarrow> None
                      | Some (xs, r') \<Rightarrow> Some (JList xs, r')))
         else if take 4 s = ''null'' then Some (JNull, drop 4 s)
         else if take 4 s = ''true'' then Some (JBool True, drop 4 s)
         else if take 5 s = ''false'' then Some (JBool False, drop 5 s)
         else parse_number s)"
| "parse_elems 0 s = None"
| "parse_elems (Suc n) s =
    (case parse_value n s of
       None \<Rightarrow> None
     | Some (v, r) \<Rightarrow>
         (case skip_ws r of
            [] \<Rightarrow> None
          | c # r' \<Rightarrow>
              if c = CHR '']'' then Some ([v], r')
              else if c = CHR '','' then
                (case parse_elems n (skip_ws r') of
                   None \<Rightarrow> None
                 | Some (vs, r'') \<Rightarrow> Some (v # vs, r''))
              else None))"
| "parse_members 0 s = None"
| "parse_members (Suc n) s =
    (case s of
       [] \<Rightarrow> None
     | q # cs \<Rightarrow>
         if q \<noteq> dquote then None
         else
           (case scan_string cs of
              None \<Rightarrow> None
            | Some (k, r) \<Rightarrow>
                (case skip_ws r of
                   [] \<Rightarrow> None
                 | c # r1 \<Rightarrow>
                     if c \<noteq> CHR '':'' then None
                     else
                       (case parse_value n (skip_ws r1) of
                          None \<Rightarrow> None
                        | Some (v, r2) \<Rightarrow>
                            (case skip_ws r2 of
                               [] \<Rightarrow> None
                             | c' # r3 \<Rightarrow>
                                 if c' = CHR ''}'' then Some ([(k, v)], r3)
                                 else if c' = CHR '','' then
                                   (case parse_members n (skip_ws r3) of
                                      None \<Rightarrow> None
                                    | Some (kvs, r4) \<Rightarrow> Some ((k, v) # kvs, r4))
                                 else None)))))"

definition json_loads :: "string \<Rightarrow> json option" where
  "json_loads s =
    (case parse_value (Suc (length s)) (skip_ws s) of
       None \<Rightarrow> None
     | Some (v, r) \<Rightarrow> if skip_ws r = [] then Some v else None)"

text \<open>A value as Python holds it: the keys of every dictionary in it are distinct.\<close>

fun wf_json :: "json \<Rightarrow> bool" where
  "wf_json (JList xs) = list_all wf_json xs"
| "wf_json (JDict d) = (distinct (map fst d) \<and> list_all (\<lambda>kv. wf_json (snd kv)) d)"
| "wf_json _ = True"

definition nested_example :: json where
  "nested_example = JList [JInt 1, JInt (- 20), JStr [CHR ''x'', dquote, CHR 0x01, CHR 0x0A, CHR 0xE9],
     JNull, JBool True, JList [], JDict [],
     JDict [(''name'', JStr ''SENATE''), (''ids'', JList [JInt 0, JBool False])]]"





text \<open>The items that one entry of a record contributes to the flattened row.\<close>

definition entry_items :: "string \<Rightarrow> string \<Rightarrow> string \<times> json \<Rightarrow> pydict" where
  "entry_items prefix sep kv =
     (case snd kv of
        JDict d \<Rightarrow> flatten_record d (new_key prefix sep (fst kv)) sep
      | JList xs \<Rightarrow> [(new_key prefix sep (fst kv), JStr (json_dumps (snd kv)))]
      | _ \<Rightarrow> [(new_key prefix sep (fst kv), snd kv)])"

definition collision_example :: pydict where
  "collision_example = [(''a.b'', JList [JInt 1]), (''a'', JDict [(''b'', JInt 2)])]"

definition list_example :: pydict where
  "list_example = [(''filing_uuid'', JStr ''abc''),
     (''lobbying_activities'', JList [JDict [(''description'', JStr ''A''), (''codes'', JList [JInt 7, JNull])]]),
     (''income'', JInt 5)]"

section \<open>Properties of the query builder\<close>

lemma dict_keys_set: "set (dict_keys (dict_set d k v)) = insert k (set (dict_keys d))"
  by (simp add: dict_keys_def dict_set_def AList.update_keys) auto

lemma dict_keys_update: "set (dict_keys (dict_update d other)) = set (dict_keys d) \<union> set (dict_keys other)"
proof -
  have "set (dict_keys (fold (\<lambda>(k, v) acc. dict_set acc k v) other d))
        = set (dict_keys d) \<union> fst ` set other" for d
    by (induction other arbitrary: d) (auto simp: dict_keys_set split: prod.splits)
  then show ?thesis by (simp add: dict_update_def dict_keys_def)
qed

lemma dict_keys_base: "set (dict_keys [(a, x), (b, y)]) = {a, b}"
  by (simp add: dict_keys_def)

lemma keys_step_int:
  "set (dict_keys (case x of Some i \<Rightarrow> dict_set f k (JInt i) | None \<Rightarrow> f))
     = set (dict_keys f) \<union> (if x \<noteq> None then {k} else {})"
  by (cases x) (simp_all add: dict_keys_set)

lemma keys_step_str:
  "set (dict_keys (case x of Some n \<Rightarrow> if n \<noteq> [] then dict_set f k (JStr n) else f | None \<Rightarrow> f))
     = set (dict_keys f) \<union> (if x \<noteq> None \<and> x \<noteq> Some [] then {k} else {})"
  by (cases x) (simp_all add: dict_keys_set)

lemma keys_step_extra:
  "set (dict_keys (case x of Some extra \<Rightarrow> if extra \<noteq> [] then dict_update f extra else f | None \<Rightarrow> f))
     = set (dict_keys f) \<union> (case x of None \<Rightarrow> {} | Some extra \<Rightarrow> set (dict_keys extra))"
proof (cases x)
  case None
  then show ?thesis by simp
next
  case (Some extra)
  have "dict_keys [] = []" by (simp add: dict_keys_def)
  with Some show ?thesis by (simp add: dict_keys_update)
qed

lemma build_filters_keys:
  "set (dict_keys (build_filters q)) = {''page'', ''page_size''} \<union> supplied_keys q"
  unfolding build_filters_def supplied_keys_def Let_def
  by (simp only: keys_step_int keys_step_str keys_step_extra dict_keys_base Un_assoc)

lemma has_filter_iff:
  "has_filter (build_filters q) \<longleftrightarrow> supplied_keys q \<inter> set identifying_keys \<noteq> {}"
proof -
  have "{''page'', ''page_size''} \<inter> set identifying_keys = {}"
    by (simp add: identifying_keys_def)
  then show ?thesis
    unfolding has_filter_def build_filters_keys list_ex_iff by blast
qed



section \<open>Properties of the pager\<close>

lemma supplied_keys_page [simp]: "supplied_keys (q\<lparr>page := pg\<rparr>) = supplied_keys q"
  by (simp add: supplied_keys_def)

lemma has_filter_page [simp]:
  "has_filter (build_filters (q\<lparr>page := pg\<rparr>)) = has_filter (build_filters q)"
  by (simp add: has_filter_iff)

lemma list_filings_served:
  assumes "serve (length L) ''filings/'' (build_filters (q\<lparr>page := pg\<rparr>)) = Inr p"
    and "has_filter (build_filters q) \<or> pg \<le> 1"
  shows "list_filings (logged serve) (q\<lparr>page := pg\<rparr>) L
           = (Inr p, L @ [(''filings/'', build_filters (q\<lparr>page := pg\<rparr>))])"
  using assms by (auto simp: list_filings_def logged_def Let_def)

lemma page_response_fields:
  assumes "page_response p"
  shows "bind_err (py_get p ''results'' (JList [])) py_iter = Inr (results_of p)"
    and "py_get p ''next'' JNull = Inr (next_of p)"
    and "\<exists>d. p = JDict d"
  using assms
  by (cases p; auto simp: bind_err_def split: option.splits json.splits)+

lemma loop_last_page:
  assumes "serve (length L) ''filings/'' (build_filters (q\<lparr>page := pg\<rparr>)) = Inr p"
    and "has_filter (build_filters q) \<or> pg \<le> 1"
    and "page_response p"
    and "\<not> truthy (next_of p) \<or> (\<exists>m. max_pages = Some m \<and> m \<le> pg)"
  shows "list_all_loop (logged serve) q max_pages acc fr pg L
           = Some (merge_result (case fr of None \<Rightarrow> p | Some f \<Rightarrow> f) (acc @ results_of p) pg,
                   L @ [(''filings/'', build_filters (q\<lparr>page := pg\<rparr>))])"
  apply (subst list_all_loop.simps)
  using assms(4)
  by (auto simp: list_filings_served[where serve=serve and L=L and q=q and pg=pg and p=p, OF assms(1,2)] page_response_fields[OF assms(3)]
           split: option.splits)

lemma loop_next_page:
  assumes "serve (length L) ''filings/'' (build_filters (q\<lparr>page := pg\<rparr>)) = Inr p"
    and "has_filter (build_filters q) \<or> pg \<le> 1"
    and "page_response p"
    and "truthy (next_of p)"
    and "\<forall>m. max_pages = Some m \<longrightarrow> pg < m"
  shows "list_all_loop (logged serve) q max_pages acc fr pg L
           = list_all_loop (logged serve) q max_pages (acc @ results_of p)
               (Some (case fr of None \<Rightarrow> p | Some f \<Rightarrow> f)) (pg + 1)
               (L @ [(''filings/'', build_filters (q\<lparr>page := pg\<rparr>))])"
  apply (subst list_all_loop.simps)
  using assms(4,5)
  by (auto simp: list_filings_served[where serve=serve and L=L and q=q and pg=pg and p=p, OF assms(1,2)] page_response_fields[OF assms(3)]
           split: option.splits)

lemma loop_run:
  assumes "serves serve q (length L) pg (p # ps)"
    and "list_all page_response (p # ps)"
    and "has_filter (build_filters q) \<or> pg + int (length ps) \<le> 1"
    and "list_all (\<lambda>x. truthy (next_of x)) (butlast (p # ps))"
    and "\<forall>m. max_pages = Some m \<longrightarrow> pg + int (length ps) - 1 < m \<or> ps = []"
    and "\<not> truthy (next_of (last (p # ps))) \<or> (\<exists>m. max_pages = Some m \<and> m \<le> pg + int (length ps))"
  shows "list_all_loop (logged serve) q max_pages acc fr pg L
           = Some (merge_result (case fr of None \<Rightarrow> p | Some f \<Rightarrow> f)
                     (acc @ concat (map results_of (p # ps))) (pg + int (length ps)),
                   L @ page_calls q pg (Suc (length ps)))"
  using assms
proof (induction ps arbitrary: p acc fr pg L)
  case Nil
  then show ?case
    using loop_last_page[where serve=serve and L=L and q=q and pg=pg and p=p and max_pages=max_pages and acc=acc and fr=fr] by simp
next
  case (Cons p' ps)
  have step: "list_all_loop (logged serve) q max_pages acc fr pg L
           = list_all_loop (logged serve) q max_pages (acc @ results_of p)
               (Some (case fr of None \<Rightarrow> p | Some f \<Rightarrow> f)) (pg + 1)
               (L @ [(''filings/'', build_filters (q\<lparr>page := pg\<rparr>))])"
    using Cons.prems by (intro loop_next_page) auto
  let ?L = "L @ [(''filings/'', build_filters (q\<lparr>page := pg\<rparr>))]"
  from Cons.prems have a: "serves serve q (length ?L) (pg + 1) (p' # ps)" by simp
  from Cons.prems have b: "list_all page_response (p' # ps)" by simp
  from Cons.prems have c: "has_filter (build_filters q) \<or> pg + 1 + int (length ps) \<le> 1"
    by auto
  from Cons.prems have d: "list_all (\<lambda>x. truthy (next_of x)) (butlast (p' # ps))" by simp
  from Cons.prems have e: "\<forall>m. max_pages = Some m \<longrightarrow> pg + 1 + int (length ps) - 1 < m \<or> ps = []"
    by auto
  from Cons.prems have f: "\<not> truthy (next_of (last (p' # ps)))
      \<or> (\<exists>m. max_pages = Some m \<and> m \<le> pg + 1 + int (length ps))"
    by (auto simp: add.commute add.left_commute)
  have "list_all_loop (logged serve) q max_pages (acc @ results_of p)
               (Some (case fr of None \<Rightarrow> p | Some f \<Rightarrow> f)) (pg + 1) ?L
        = Some (merge_result (case fr of None \<Rightarrow> p | Some f \<Rightarrow> f)
                  ((acc @ results_of p) @ concat (map results_of (p' # ps)))
                  (pg + 1 + int (length ps)),
                ?L @ page_calls q (pg + 1) (Suc (length ps)))"
    using Cons.IH[OF a b c d e f, where acc = "acc @ results_of p"
        and fr = "Some (case fr of None \<Rightarrow> p | Some f \<Rightarrow> f)"]
    by simp
  with step show ?case by (simp add: ac_simps)
qed


lemma take_butlast_prefix:
  assumes "1 \<le> K" "K \<le> length ps"
  shows "butlast (take K ps) = take (K - 1) (butlast ps)"
  using assms by (simp add: butlast_take take_butlast min_def)

lemma list_all_take: "list_all P xs \<Longrightarrow> list_all P (take n xs)"
  by (metis append_take_drop_id list_all_append)

text \<open>
  Claim C1, amended. Let the transport serve a finite page sequence of \<open>N\<close> Page
  Responses whose \<^verbatim>\<open>next\<close> is truthy (a non-empty URL) on pages \<open>1..N-1\<close> and falsy
  (null) on page \<open>N\<close>, let \<^verbatim>\<open>max_pages\<close> be absent or some \<open>m \<ge> 1\<close>, and let
  \<open>K = min N m\<close> (\<open>K = N\<close> when absent). If an identifying filter is in the assembled
  filter set, or \<open>K \<le> 1\<close>, then \<^verbatim>\<open>list_all_filings\<close> returns; it issues exactly the
  \<open>K\<close> requests for pages \<open>1..K\<close>, and its result is the first page's dictionary with
  \<^verbatim>\<open>results\<close> set to the concatenation, in page order, of the results of the \<open>K\<close>
  fetched pages and \<^verbatim>\<open>fetched_pages\<close> set to \<open>K\<close>.
\<close>

theorem list_all_filings_pages:
  fixes serve :: "(error + json) service"
  assumes nonempty: "ps \<noteq> []"
    and pages: "list_all page_response ps"
    and more: "list_all (\<lambda>p. truthy (next_of p)) (butlast ps)"
    and final: "\<not> truthy (next_of (last ps))"
    and cap: "max_pages = None \<or> (\<exists>m. max_pages = Some m \<and> 1 \<le> m)"
    and K: "K = (case max_pages of None \<Rightarrow> length ps | Some m \<Rightarrow> min (length ps) (nat m))"
    and filter: "has_filter (build_filters q) \<or> K \<le> 1"
    and served: "serves serve q (length log) 1 (take K ps)"
  shows "\<exists>d. hd ps = JDict d
           \<and> list_all_filings (logged serve) q max_pages log
               = Some (Inr (JDict (dict_set (dict_set d ''results''
                                     (JList (concat (map results_of (take K ps)))))
                                   ''fetched_pages'' (JInt (int K)))),
                       log @ page_calls q 1 K)
           \<and> length (page_calls q 1 K) = K"
proof -
  have N1: "1 \<le> length ps"
    using nonempty by (cases ps) auto
  have K1: "1 \<le> K"
    using N1 cap K by (auto split: option.splits)
  have KN: "K \<le> length ps"
    using K by (auto split: option.splits)
  obtain p rest where take: "take K ps = p # rest"
    using K1 nonempty by (cases "take K ps") auto
  have len: "length rest = K - 1"
    using arg_cong[OF take, of length] KN by simp
  have p: "p = hd ps"
    using take nonempty K1 by (cases ps; cases K) auto
  have a: "serves serve q (length log) 1 (p # rest)" using served take by simp
  have b: "list_all page_response (p # rest)"
    using list_all_take[OF pages, of K] take by simp
  have c: "has_filter (build_filters q) \<or> 1 + int (length rest) \<le> 1"
    using filter len by auto
  have "list_all (\<lambda>p. truthy (next_of p)) (take (K - 1) (butlast ps))"
    by (rule list_all_take[OF more])
  then have d: "list_all (\<lambda>p. truthy (next_of p)) (butlast (p # rest))"
    using take_butlast_prefix[OF K1 KN] take by simp
  have e: "\<forall>m. max_pages = Some m \<longrightarrow> 1 + int (length rest) - 1 < m \<or> rest = []"
    using K K1 cap len by (auto split: option.splits)
  have f: "\<not> truthy (next_of (last (p # rest)))
      \<or> (\<exists>m. max_pages = Some m \<and> m \<le> 1 + int (length rest))"
  proof (cases "K = length ps")
    case True
    then have "take K ps = ps" by simp
    with take final show ?thesis by simp
  next
    case False
    with K KN cap obtain m where "max_pages = Some m" "K = nat m" "1 \<le> m"
      by (auto split: option.splits simp: min_def split: if_splits)
    with len K1 show ?thesis by auto
  qed
  obtain d where pd: "p = JDict d"
    using b by (cases p) auto
  have run: "list_all_loop (logged serve) q max_pages [] None 1 log
      = Some (merge_result p (concat (map results_of (p # rest))) (1 + int (length rest)),
              log @ page_calls q 1 (Suc (length rest)))"
    using loop_run[OF a b c d e f, of "[]" None] by simp
  have K': "Suc (length rest) = K" "1 + int (length rest) = int K"
    using len K1 by auto
  have calls: "length (page_calls q pg n) = n" for pg n
    by (induction n arbitrary: pg) auto
  have hd: "hd ps = JDict d" using p pd by simp
  have res: "list_all_filings (logged serve) q max_pages log
      = Some (merge_result (JDict d) (concat (map results_of (take K ps))) (int K),
              log @ page_calls q 1 K)"
    unfolding list_all_filings_def run K' take pd ..
  show ?thesis
    unfolding res using hd calls by (simp add: merge_result_def)
qed


text \<open>
  With \<^verbatim>\<open>next\<close> set on pages 1 to 3 and null on page 4: four calls and
  \<^verbatim>\<open>fetched_pages = 4\<close>; with \<^verbatim>\<open>max_pages = 2\<close>: two calls.
\<close>

theorem list_all_filings_pages_witness:
  "list_all_filings (logged example_service) example_query None []
     = Some (Inr (JDict [(''count'', JInt 4),
                         (''next'', JStr ''https://lda.senate.gov/api/v1/filings/?page=next''),
                         (''results'', JList [JInt 0, JInt 1, JInt 2, JInt 3]),
                         (''fetched_pages'', JInt 4)]),
             page_calls example_query 1 4)
   \<and> length (page_calls example_query 1 4) = 4
   \<and> list_all_filings (logged example_service) example_query (Some 2) []
     = Some (Inr (JDict [(''count'', JInt 4),
                         (''next'', JStr ''https://lda.senate.gov/api/v1/filings/?page=next''),
                         (''results'', JList [JInt 0, JInt 1]),
                         (''fetched_pages'', JInt 2)]),
             page_calls example_query 1 2)
   \<and> length (page_calls example_query 1 2) = 2"
  using list_all_filings_pages[where ps = "map example_page [0, 1, 2, 3]" and max_pages = None
      and K = 4 and q = example_query and serve = example_service and log = "[]"]
    list_all_filings_pages[where ps = "map example_page [0, 1, 2, 3]" and max_pages = "Some 2"
      and K = 2 and q = example_query and serve = example_service and log = "[]"]
  by (simp add: example_page_def example_service_def example_query_def has_filter_def
        build_filters_def dict_keys_def dict_set_def identifying_keys_def)

text \<open>
  Claim C1 as stated fails without an identifying filter: the server offers two pages
  (\<^verbatim>\<open>next\<close> set on the first, null on the second), and the request for page 2 is
  refused by \<^verbatim>\<open>list_filings\<close> after a single call; nothing is returned.
\<close>

theorem list_all_filings_no_filter_counterexample:
  "list_all page_response [example_page 2, example_page 3]
   \<and> next_of (example_page 2) \<noteq> JNull \<and> next_of (example_page 3) = JNull
   \<and> list_all_filings (logged (\<lambda>n target params. Inr (example_page (n + 2))))
        (example_query\<lparr>client_id := None\<rparr>) None []
      = Some (Inl invalid_query, [(''filings/'', [(''page'', JInt 1), (''page_size'', JInt 25)])])"
  by (simp add: list_all_filings_def list_all_loop.simps list_filings_def logged_def
        example_query_def example_page_def build_filters_def bind_err_def has_filter_def
        dict_keys_def identifying_keys_def)

text \<open>
  Claim C10. For every \<^verbatim>\<open>max_pages\<close> \<open>\<le> 1\<close> (zero and negative values included), when
  the transport answers the request for page 1 with a Page Response, \<^verbatim>\<open>list_all_filings\<close>
  issues exactly that one request and returns the response with \<^verbatim>\<open>fetched_pages = 1\<close>,
  whatever the response's \<^verbatim>\<open>next\<close> field is and whether or not a filter is given.
\<close>

theorem list_all_filings_cap_at_most_one:
  fixes serve :: "(error + json) service"
  assumes "m \<le> 1"
    and "serve (length log) ''filings/'' (build_filters (q\<lparr>page := 1\<rparr>)) = Inr (JDict d)"
    and "map_of d ''results'' = Some (JList rs)"
  shows "list_all_filings (logged serve) q (Some m) log
           = Some (Inr (JDict (dict_set (dict_set d ''results'' (JList rs))
                                 ''fetched_pages'' (JInt 1))),
                   log @ [(''filings/'', build_filters (q\<lparr>page := 1\<rparr>))])"
proof -
  have "page_response (JDict d)" using assms(3) by simp
  then show ?thesis
    unfolding list_all_filings_def
    using loop_last_page[where serve = serve and L = log and q = q and pg = 1
        and p = "JDict d" and max_pages = "Some m" and acc = "[]" and fr = None] assms
    by (simp add: merge_result_def)
qed

theorem list_all_filings_cap_at_most_one_witness:
  "list_all_filings (logged example_service) (example_query\<lparr>client_id := None\<rparr>) (Some (- 3)) []
     = Some (Inr (JDict [(''count'', JInt 4),
                         (''next'', JStr ''https://lda.senate.gov/api/v1/filings/?page=next''),
                         (''results'', JList [JInt 0]),
                         (''fetched_pages'', JInt 1)]),
             [(''filings/'', [(''page'', JInt 1), (''page_size'', JInt 25)])])"
  using list_all_filings_cap_at_most_one[where m = "- 3" and serve = example_service
      and log = "[]" and q = "example_query\<lparr>client_id := None\<rparr>"
      and d = "[(''count'', JInt 4),
                (''next'', JStr ''https://lda.senate.gov/api/v1/filings/?page=next''),
                (''results'', JList [JInt 0])]" and rs = "[JInt 0]"]
  by (simp add: example_page_def example_service_def example_query_def
        build_filters_def dict_set_def)

section \<open>Properties of the transport\<close>

lemma request_loop_first:
  "request_loop get c url params 0 w =
    (case get url params w of
       (Responded r, w') \<Rightarrow> (Inr r, w')
     | (Raised e, w') \<Rightarrow> (Inl (Propagated e), w')
     | (TimedOut, w') \<Rightarrow>
        (case get url params w' of
           (Responded r, w'') \<Rightarrow> (Inr r, w'')
         | (Raised e, w'') \<Rightarrow> (Inl (Propagated e), w'')
         | (TimedOut, w'') \<Rightarrow> (Inl (timeout_error url c), w'')))"
  by (simp split: prod.splits get_outcome.splits)

text \<open>
  Claim C9, amended. For every request of the transport, with \<open>url\<close> the base URL
  joined to the path: a GET that times out is retried exactly once, and when the retry
  times out too the call fails with the timeout error that carries the URL and the
  configured timeout; an exception other than a timeout propagates at once, from the
  first GET without any retry; a response whose status is in 400..599 fails with the
  error that carries the status code and the body text, without retry; any other
  response (2xx included) yields what \<^verbatim>\<open>response.json()\<close> yields, the parsed body.
\<close>

theorem request_outcomes:
  fixes serve :: "get_outcome service"
  assumes url: "url = base_url c @ ''/'' @ lstrip_char CHR ''/'' path"
    and after: "after = (\<lambda>r. if 400 \<le> status_code r \<and> status_code r < 600
          then Inl (RuntimeError (''Request failed: '' @ str_int (status_code r) @ '' '' @ text_of r))
          else parsed r)"
  shows "(serve (length log) url params = TimedOut \<and> serve (Suc (length log)) url params = TimedOut
           \<longrightarrow> request (logged serve) c path params log
                = (Inl (RuntimeError (''Request to '' @ url @ '' timed out after '' @ timeout c @ '' seconds.'')),
                   log @ [(url, params), (url, params)]))
       \<and> (serve (length log) url params = TimedOut \<and> serve (Suc (length log)) url params = Raised e
           \<longrightarrow> request (logged serve) c path params log
                = (Inl (Propagated e), log @ [(url, params), (url, params)]))
       \<and> (serve (length log) url params = TimedOut \<and> serve (Suc (length log)) url params = Responded r
           \<longrightarrow> request (logged serve) c path params log
                = (after r, log @ [(url, params), (url, params)]))
       \<and> (serve (length log) url params = Raised e
           \<longrightarrow> request (logged serve) c path params log
                = (Inl (Propagated e), log @ [(url, params)]))
       \<and> (serve (length log) url params = Responded r
           \<longrightarrow> request (logged serve) c path params log
                = (after r, log @ [(url, params)]))"
  unfolding request_def request_loop_first url after
  by (simp add: logged_def timeout_error_def raise_for_status_def Let_def)

theorem request_outcomes_witness:
  "request (logged (\<lambda>n u p. TimedOut)) example_client ''/filings/'' [] []
     = (Inl (RuntimeError
          ''Request to https://lda.senate.gov/api/v1/filings/ timed out after 60.0 seconds.''),
        [(''https://lda.senate.gov/api/v1/filings/'', []),
         (''https://lda.senate.gov/api/v1/filings/'', [])])
   \<and> request (logged (\<lambda>n u p. if n = 0 then TimedOut else Raised ''ConnectionError''))
        example_client ''/filings/'' [] []
     = (Inl (Propagated ''ConnectionError''),
        [(''https://lda.senate.gov/api/v1/filings/'', []),
         (''https://lda.senate.gov/api/v1/filings/'', [])])
   \<and> request (logged (\<lambda>n u p. if n = 0 then TimedOut else Responded \<lparr>status_code = 200,
                                     text_of = ''{}'', parsed = Inr (JDict [])\<rparr>))
        example_client ''/filings/'' [] []
     = (Inr (JDict []),
        [(''https://lda.senate.gov/api/v1/filings/'', []),
         (''https://lda.senate.gov/api/v1/filings/'', [])])
   \<and> request (logged (\<lambda>n u p. Raised ''ConnectionError'')) example_client ''/filings/'' [] []
     = (Inl (Propagated ''ConnectionError''), [(''https://lda.senate.gov/api/v1/filings/'', [])])
   \<and> request (logged (\<lambda>n u p. Responded \<lparr>status_code = 404, text_of = ''nope'',
                                            parsed = Inl JSONDecodeError\<rparr>))
        example_client ''/filings/'' [] []
     = (Inl (RuntimeError ''Request failed: 404 nope''),
        [(''https://lda.senate.gov/api/v1/filings/'', [])])"
  using request_outcomes[where serve = "\<lambda>n u p. TimedOut" and c = example_client
        and path = "''/filings/''" and params = "[]" and log = "[]", OF refl refl]
    request_outcomes[where serve = "\<lambda>n u p. if n = 0 then TimedOut else Raised ''ConnectionError''"
        and e = "''ConnectionError''" and c = example_client
        and path = "''/filings/''" and params = "[]" and log = "[]", OF refl refl]
    request_outcomes[where serve = "\<lambda>n u p. if n = 0 then TimedOut else Responded \<lparr>status_code = 200,
                                     text_of = ''{}'', parsed = Inr (JDict [])\<rparr>"
        and r = "\<lparr>status_code = 200, text_of = ''{}'', parsed = Inr (JDict [])\<rparr>"
        and c = example_client
        and path = "''/filings/''" and params = "[]" and log = "[]", OF refl refl]
    request_outcomes[where serve = "\<lambda>n u p. Raised ''ConnectionError''"
        and e = "''ConnectionError''" and c = example_client
        and path = "''/filings/''" and params = "[]" and log = "[]", OF refl refl]
    request_outcomes[where serve = "\<lambda>n u p. Responded \<lparr>status_code = 404, text_of = ''nope'',
                                            parsed = Inl JSONDecodeError\<rparr>"
        and r = "\<lparr>status_code = 404, text_of = ''nope'', parsed = Inl JSONDecodeError\<rparr>"
        and c = example_client
        and path = "''/filings/''" and params = "[]" and log = "[]", OF refl refl]
  by (simp add: example_client_def lstrip_char_def str_int_def str_nat.simps digit_char_def)

text \<open>
  Claim C9 as stated fails for a status outside 2xx that is no error status: a 304
  response with an empty body is not turned into the status-carrying failure; the
  program goes on to \<^verbatim>\<open>response.json()\<close>, whose decoding error is what the caller sees.
\<close>

theorem request_not_modified_counterexample:
  "request (logged (\<lambda>n u p. Responded \<lparr>status_code = 304, text_of = [],
                                          parsed = Inl JSONDecodeError\<rparr>))
      example_client ''filings/'' [] []
     = (Inl JSONDecodeError, [(''https://lda.senate.gov/api/v1/filings/'', [])])
   \<and> \<not> (200 \<le> (304::int) \<and> (304::int) < 300)"
  by (simp add: request_def logged_def example_client_def lstrip_char_def raise_for_status_def)

section \<open>Properties of the simplified row\<close>

lemma bind_err_Inr: "bind_err m f = Inr y \<longleftrightarrow> (\<exists>x. m = Inr x \<and> f x = Inr y)"
  by (cases m) (auto simp: bind_err_def)

lemma bind_err_InrE:
  assumes "bind_err m f = Inr y"
  obtains x where "m = Inr x" "f x = Inr y"
  using assms by (auto simp: bind_err_Inr)

lemma simplified_row_parts:
  assumes "simplified_row record = Inr row"
  obtains r c registrant_id client_legacy_id gen activity_descriptions description where
    "py_get record ''registrant'' JNull = Inr r"
    "py_get record ''client'' JNull = Inr c"
    "py_get (py_or r (JDict [])) ''id'' JNull = Inr registrant_id"
    "get_or (py_or c (JDict [])) ''client_id'' (py_or c (JDict [])) ''id'' = Inr client_legacy_id"
    "map_of row ''senate_id'' =
       Some (if truthy registrant_id \<and> truthy client_legacy_id
             then JStr (py_str registrant_id @ ''-'' @ py_str client_legacy_id) else JNull)"
    "activity_description_texts record = Inr gen"
    "unique gen = Inr activity_descriptions"
    "py_join ''; '' activity_descriptions = Inr description"
    "map_of row ''description'' = Some (JStr description)"
  using assms unfolding simplified_row_def Let_def
  apply (elim bind_err_InrE)
  apply (rule that)
          apply assumption
         apply assumption
        apply assumption
       apply assumption
      apply (simp only: sum.inject, hypsubst, simp)
     apply assumption
    apply assumption
   apply assumption
  apply (simp only: sum.inject, hypsubst, simp)
  done

lemma py_get_lookup: "py_get x k JNull = Inr v \<Longrightarrow> v = lookup x k"
  by (cases x) (auto split: option.splits)

lemma lookup_py_or: "lookup (py_or r (JDict [])) k = lookup r k"
  by (cases r) (auto simp: py_or_def)

lemma get_or_lookup:
  "get_or x k1 y k2 = Inr v \<Longrightarrow> v = py_or (lookup x k1) (lookup y k2)"
  by (auto simp: get_or_def bind_err_Inr or_else_def py_or_def dest!: py_get_lookup
           split: if_splits)

lemma scenario_row:
  "simplified_row scenario_record =
     Inr [(''registrant_name'', JStr ''R''), (''registrant_address'', JStr []),
          (''registrant_contact'', JNull), (''registrant_phone'', JNull),
          (''senate_id'', JNull), (''client_name'', JStr ''C''),
          (''filing_information'', JStr ''2024''), (''income'', JInt 1000),
          (''expenses'', JNull), (''expenses_method'', JNull),
          (''dt_posted'', JNull), (''description'', JStr []),
          (''government_entities'', JStr []), (''filing_uuid'', JStr ''abc''),
          (''filing_document_url'', JNull)]"
  by code_simp

lemma activities_row:
  "simplified_row activities_record =
     Inr [(''registrant_name'', JNull), (''registrant_address'', JStr []),
          (''registrant_contact'', JNull), (''registrant_phone'', JNull),
          (''senate_id'', JStr ''12-34''), (''client_name'', JNull),
          (''filing_information'', JStr ''None''), (''income'', JNull),
          (''expenses'', JNull), (''expenses_method'', JNull),
          (''dt_posted'', JNull), (''description'', JStr ''A; B''),
          (''government_entities'', JStr []), (''filing_uuid'', JNull),
          (''filing_document_url'', JNull)]"
  by code_simp


lemma zero_client_row:
  "simplified_row zero_client_record =
     Inr [(''registrant_name'', JNull), (''registrant_address'', JStr []),
          (''registrant_contact'', JNull), (''registrant_phone'', JNull),
          (''senate_id'', JStr ''12-34''), (''client_name'', JNull),
          (''filing_information'', JStr ''None''), (''income'', JNull),
          (''expenses'', JNull), (''expenses_method'', JNull),
          (''dt_posted'', JNull), (''description'', JStr []),
          (''government_entities'', JStr []), (''filing_uuid'', JNull),
          (''filing_document_url'', JNull)]"
  by code_simp

lemma legacy_client_row:
  "simplified_row legacy_client_record =
     Inr [(''registrant_name'', JNull), (''registrant_address'', JStr []),
          (''registrant_contact'', JNull), (''registrant_phone'', JNull),
          (''senate_id'', JStr ''12-34''), (''client_name'', JNull),
          (''filing_information'', JStr ''None''), (''income'', JNull),
          (''expenses'', JNull), (''expenses_method'', JNull),
          (''dt_posted'', JNull), (''description'', JStr []),
          (''government_entities'', JStr []), (''filing_uuid'', JNull),
          (''filing_document_url'', JNull)]"
  by code_simp

text \<open>
  Claim C3, amended. For every raw filing record that \<^verbatim>\<open>_simplified_row\<close> turns into a
  row, with \<open>rid = registrant.id\<close>, \<open>cid = client.client_id\<close> and \<open>cid' = client.id\<close>
  (each \<^verbatim>\<open>None\<close> when missing): \<^verbatim>\<open>senate_id\<close> is the text of \<open>rid\<close>, a dash and the
  text of \<open>cid\<close> when \<open>rid\<close> and \<open>cid\<close> are truthy; it is the text of \<open>rid\<close>, a dash and
  the text of \<open>cid'\<close> when \<open>cid\<close> is missing or falsy and \<open>rid\<close> and \<open>cid'\<close> are
  truthy; and it is \<^verbatim>\<open>None\<close> in every other case.
\<close>

theorem senate_id_composition:
  assumes "simplified_row record = Inr row"
  shows "map_of row ''senate_id'' = Some
     (let rid = lookup (lookup record ''registrant'') ''id'';
          cid = lookup (lookup record ''client'') ''client_id'';
          cid' = lookup (lookup record ''client'') ''id''
      in if truthy rid \<and> truthy cid then JStr (py_str rid @ ''-'' @ py_str cid)
         else if truthy rid \<and> truthy cid' then JStr (py_str rid @ ''-'' @ py_str cid')
         else JNull)"
proof -
  from assms obtain r c registrant_id client_legacy_id where
    r: "py_get record ''registrant'' JNull = Inr r" and
    c: "py_get record ''client'' JNull = Inr c" and
    rid: "py_get (py_or r (JDict [])) ''id'' JNull = Inr registrant_id" and
    cid: "get_or (py_or c (JDict [])) ''client_id'' (py_or c (JDict [])) ''id''
            = Inr client_legacy_id" and
    row: "map_of row ''senate_id'' =
       Some (if truthy registrant_id \<and> truthy client_legacy_id
             then JStr (py_str registrant_id @ ''-'' @ py_str client_legacy_id) else JNull)"
    by (rule simplified_row_parts)
  have "registrant_id = lookup (lookup record ''registrant'') ''id''"
    using py_get_lookup[OF rid] py_get_lookup[OF r] by (simp add: lookup_py_or)
  moreover have "client_legacy_id = py_or (lookup (lookup record ''client'') ''client_id'')
                                          (lookup (lookup record ''client'') ''id'')"
    using get_or_lookup[OF cid] py_get_lookup[OF c] by (simp add: lookup_py_or)
  ultimately show ?thesis
    using row by (simp add: py_or_def Let_def)
qed

theorem senate_id_composition_witness:
  "(\<exists>row. simplified_row legacy_client_record = Inr row
      \<and> lookup (lookup legacy_client_record ''client'') ''client_id'' = JInt 34
      \<and> map_of row ''senate_id'' = Some (JStr ''12-34''))
   \<and> (\<exists>row. simplified_row activities_record = Inr row
      \<and> lookup (lookup activities_record ''client'') ''client_id'' = JNull
      \<and> lookup (lookup activities_record ''client'') ''id'' = JInt 34
      \<and> map_of row ''senate_id'' = Some (JStr ''12-34''))
   \<and> (\<exists>row. simplified_row scenario_record = Inr row
      \<and> lookup (lookup scenario_record ''registrant'') ''id'' = JNull
      \<and> map_of row ''senate_id'' = Some JNull)"
  using senate_id_composition[OF legacy_client_row] senate_id_composition[OF activities_row]
    senate_id_composition[OF scenario_row]
  by (simp add: legacy_client_row activities_row scenario_row)
     (simp add: legacy_client_record_def activities_record_def scenario_record_def)

text \<open>
  Claim C3 as stated fails for an identifier that is present but falsy: with
  \<open>registrant.id = 12\<close>, \<open>client.client_id = 0\<close> and \<open>client.id = 34\<close> both
  \<open>registrant.id\<close> and \<open>client.client_id\<close> are present, yet \<^verbatim>\<open>senate_id\<close> is \<^verbatim>\<open>12-34\<close>,
  not \<^verbatim>\<open>12-0\<close>.
\<close>

theorem senate_id_zero_client_counterexample:
  "lookup (lookup zero_client_record ''registrant'') ''id'' = JInt 12
   \<and> lookup (lookup zero_client_record ''client'') ''client_id'' = JInt 0
   \<and> (\<exists>row. simplified_row zero_client_record = Inr row
          \<and> map_of row ''senate_id'' = Some (JStr ''12-34'')
          \<and> map_of row ''senate_id'' \<noteq> Some (JStr (py_str (JInt 12) @ ''-'' @ py_str (JInt 0))))"
  by (simp add: zero_client_row) (simp add: zero_client_record_def str_int_def str_nat.simps digit_char_def)

text \<open>
  Claim C5, amended. For the scenario record \<^verbatim>\<open>_simplified_row\<close> returns a row with
  exactly the fifteen fixed columns, in their order: \<^verbatim>\<open>registrant_name\<close> is \<^verbatim>\<open>R\<close>,
  \<^verbatim>\<open>client_name\<close> is \<^verbatim>\<open>C\<close>, \<^verbatim>\<open>filing_information\<close> is \<^verbatim>\<open>2024\<close>, \<^verbatim>\<open>income\<close> is 1000 and
  \<^verbatim>\<open>filing_uuid\<close> is \<^verbatim>\<open>abc\<close>; of the other columns, none absent, the three composed
  ones (\<^verbatim>\<open>registrant_address\<close>, \<^verbatim>\<open>description\<close>, \<^verbatim>\<open>government_entities\<close>) hold the empty
  string and the seven looked-up ones hold \<^verbatim>\<open>None\<close>.
\<close>

theorem simplified_row_scenario:
  "\<exists>row. simplified_row scenario_record = Inr row
     \<and> dict_keys row = SIMPLE_CSV_FIELDS
     \<and> map_of row ''registrant_name'' = Some (JStr ''R'')
     \<and> map_of row ''client_name'' = Some (JStr ''C'')
     \<and> map_of row ''filing_information'' = Some (JStr ''2024'')
     \<and> map_of row ''income'' = Some (JInt 1000)
     \<and> map_of row ''filing_uuid'' = Some (JStr ''abc'')
     \<and> list_all (\<lambda>k. map_of row k = Some (JStr []))
          [''registrant_address'', ''description'', ''government_entities'']
     \<and> list_all (\<lambda>k. map_of row k = Some JNull)
          [''registrant_contact'', ''registrant_phone'', ''senate_id'', ''expenses'',
           ''expenses_method'', ''dt_posted'', ''filing_document_url'']"
  by (simp add: scenario_row dict_keys_def SIMPLE_CSV_FIELDS_def)

text \<open>
  Claim C5 as stated fails: the unset column \<^verbatim>\<open>registrant_contact\<close> of the scenario's
  row is \<^verbatim>\<open>None\<close>, not the empty string.
\<close>

theorem simplified_row_scenario_null_counterexample:
  "\<exists>row. simplified_row scenario_record = Inr row
     \<and> map_of row ''registrant_contact'' = Some JNull
     \<and> map_of row ''registrant_contact'' \<noteq> Some (JStr [])"
  by (simp add: scenario_row)

section \<open>The description column\<close>

lemma is_space_blank [simp]: "is_space CHR '' ''"
  by (simp add: is_space_def whitespace_def)








lemma join_Cons: "join sep (x # xs) = (if xs = [] then x else x @ sep @ join sep xs)"
  by (cases xs) auto











lemma first_seen_Nil [simp]: "first_seen [] = []"
  by (simp add: first_seen_def)











section \<open>Properties of flatten and of the exporters\<close>

lemma dict_set_fresh: "k \<notin> fst ` set d \<Longrightarrow> dict_set d k v = d @ [(k, v)]"
  unfolding dict_set_def by (induction d) auto

lemma dict_update_fresh:
  "distinct (map fst (d @ other)) \<Longrightarrow> dict_update d other = d @ other"
  unfolding dict_update_def
proof (induction other arbitrary: d)
  case Nil
  then show ?case by simp
next
  case (Cons kv other)
  obtain k v where kv: "kv = (k, v)" by (cases kv)
  have fresh: "k \<notin> fst ` set d" using Cons.prems kv by auto
  have "distinct (map fst ((d @ [(k, v)]) @ other))" using Cons.prems kv by auto
  then show ?case
    using Cons.IH[of "d @ [(k, v)]"] kv by (simp add: dict_set_fresh[OF fresh])
qed

text \<open>
  Claim C8. For every record with no nested structure (no value is a mapping or a
  list), \<^verbatim>\<open>_flatten_record\<close> with the empty prefix returns the record unchanged, the
  entries in their order, whatever the separator.
\<close>

theorem flatten_flat_identity:
  assumes "distinct (map fst record)"
    and "list_all (\<lambda>kv. scalar (snd kv)) record"
  shows "flatten_record record [] sep = record"
proof -
  have "fold (\<lambda>(key, value) items.
             case value of
               JDict d \<Rightarrow> dict_update items (flatten_record d (new_key [] sep key) sep)
             | JList xs \<Rightarrow> dict_set items (new_key [] sep key) (JStr (json_dumps value))
             | _ \<Rightarrow> dict_set items (new_key [] sep key) value) es items
        = fold (\<lambda>(k, v) acc. dict_set acc k v) es items"
    if "list_all (\<lambda>kv. scalar (snd kv)) es" for es items
    using that
  proof (induction es arbitrary: items)
    case Nil
    then show ?case by simp
  next
    case (Cons kv es)
    obtain k v where kv: "kv = (k, v)" by (cases kv)
    then have "scalar v" using Cons.prems by simp
    then show ?case using Cons kv by (cases v) (simp_all add: new_key_def)
  qed
  from this[OF assms(2)] have "flatten_record record [] sep = dict_update [] record"
    by (simp add: flatten_record.simps dict_update_def)
  then show ?thesis using dict_update_fresh[of "[]" "record"] assms(1) by simp
qed

theorem flatten_flat_identity_witness:
  "flatten_record flat_example [] ''.'' = flat_example"
  using flatten_flat_identity[of flat_example "''.''"]
  by (simp add: flat_example_def)

text \<open>
  Claim C4 at a row with an extra key: \<^verbatim>\<open>_write_csv\<close> with the field names \<^verbatim>\<open>["a"]\<close> and
  the row \<^verbatim>\<open>{"a": "1", "b": "2"}\<close> writes the header and then fails on the row with the
  \<^verbatim>\<open>ValueError\<close> of \<^verbatim>\<open>csv.DictWriter\<close>; the key \<^verbatim>\<open>b\<close> is not ignored. \<^verbatim>\<open>build_csv\<close> of the
  dashboard, which sets \<^verbatim>\<open>extrasaction="ignore"\<close>, writes the row.
\<close>

theorem write_csv_extra_key_raises:
  "write_csv [csv_row_example] (Some [''a''])
     = (Inl (ValueError (''dict contains fields not in fieldnames: '' @ repr_str ''b'')),
        [[''a'']])
   \<and> build_csv [csv_row_example] (Some [''a'']) = (Inr (), [[''a''], [''1'']])"
  by (simp add: write_csv_def build_csv_def resolve_fields_def dict_to_list_def
        wrong_fields_error_def csv_row_example_def dict_keys_def cell_text_def)

section \<open>Reading back what \<^verbatim>\<open>json.dumps\<close> writes\<close>

lemma digit_char_props:
  assumes "d < 10"
  shows "is_digit (digit_char d)" and "digit_val (digit_char d) = d"
    and "digit_char d = CHR ''0'' \<longleftrightarrow> d = 0"
proof -
  from assms have "d \<in> {0, 1, 2, 3, 4, 5, 6, 7, 8, 9}" by auto
  then show "is_digit (digit_char d)" and "digit_val (digit_char d) = d"
    and "digit_char d = CHR ''0'' \<longleftrightarrow> d = 0"
    by (auto simp: digit_char_def is_digit_def digit_val_def)
qed

lemma str_nat_digits: "list_all is_digit (str_nat n)"
proof (induction n rule: str_nat.induct)
  case (1 n)
  then show ?case
    by (subst str_nat.simps) (auto simp: digit_char_props)
qed

lemma str_nat_nonempty: "str_nat n \<noteq> []"
  by (subst str_nat.simps) simp

lemma nat_of_digits_snoc: "nat_of_digits (ds @ [c]) = 10 * nat_of_digits ds + digit_val c"
  by (simp add: nat_of_digits_def)

lemma nat_of_str_nat: "nat_of_digits (str_nat n) = n"
proof (induction n rule: str_nat.induct)
  case (1 n)
  show ?case
  proof (cases "n < 10")
    case True
    then show ?thesis
      by (subst str_nat.simps) (simp add: nat_of_digits_def digit_char_props)
  next
    case False
    then have "nat_of_digits (str_nat n) = 10 * (n div 10) + n mod 10"
      using "1.IH" by (subst str_nat.simps) (simp add: nat_of_digits_snoc digit_char_props)
    then show ?thesis by simp
  qed
qed

lemma str_nat_hd_zero: "hd (str_nat n) = CHR ''0'' \<longleftrightarrow> n = 0"
proof (induction n rule: str_nat.induct)
  case (1 n)
  show ?case
  proof (cases "n < 10")
    case True
    then show ?thesis by (subst str_nat.simps) (simp add: digit_char_props)
  next
    case False
    then have "n div 10 \<noteq> 0" by simp
    moreover have "hd (str_nat n) = hd (str_nat (n div 10))"
      using False str_nat_nonempty[of "n div 10"] by (subst str_nat.simps) simp
    ultimately show ?thesis using "1.IH" False by simp
  qed
qed

text \<open>What may follow a value inside a text that \<^verbatim>\<open>json.dumps\<close> wrote.\<close>

lemma follow_no_digit:
  assumes "rest = [] \<or> hd rest \<in> {CHR '','', CHR '']'', CHR ''}''}"
    and "list_all is_digit ds"
  shows "takeWhile is_digit (ds @ rest) = ds"
proof -
  have "rest = [] \<or> \<not> is_digit (hd rest)"
    using assms(1) by (auto simp: is_digit_def)
  then have "takeWhile is_digit rest = []" by (cases rest) auto
  then show ?thesis using assms(2) by (simp add: takeWhile_append2 list_all_iff)
qed

lemma follow_no_float:
  assumes "rest = [] \<or> hd rest \<in> {CHR '','', CHR '']'', CHR ''}''}"
  shows "\<not> float_tail rest"
  using assms by (cases rest) (auto simp: float_tail_def split: list.splits)

lemma parse_digits_text:
  assumes "rest = [] \<or> hd rest \<in> {CHR '','', CHR '']'', CHR ''}''}"
  shows "parse_digits neg (str_nat n @ rest)
           = Some (JInt (if neg then - int n else int n), rest)"
proof -
  obtain c cs where cs: "str_nat n = c # cs"
    using str_nat_nonempty[of n] by (cases "str_nat n") auto
  have dig: "list_all is_digit (c # cs)" using str_nat_digits[of n] cs by simp
  have tw: "takeWhile is_digit (str_nat n @ rest) = str_nat n"
    by (rule follow_no_digit[OF assms str_nat_digits])
  have nf: "\<not> float_tail rest" by (rule follow_no_float[OF assms])
  show ?thesis
  proof (cases "c = CHR ''0''")
    case True
    then have "n = 0" using str_nat_hd_zero[of n] cs by simp
    then have "str_nat n = [CHR ''0'']" by (subst str_nat.simps) (simp add: digit_char_def)
    then show ?thesis using nf \<open>n = 0\<close>
      by (simp add: parse_digits_def is_digit_def nat_of_digits_def digit_val_def)
  next
    case False
    have c: "is_digit c" using dig by simp
    have tw': "takeWhile is_digit (cs @ rest) = cs"
      using tw c unfolding cs by simp
    have n: "nat_of_digits (c # cs) = n"
      using nat_of_str_nat[of n] unfolding cs .
    have "parse_digits neg (c # (cs @ rest))
        = Some (JInt (if neg then - int n else int n), rest)"
      unfolding parse_digits_def using False c nf
      by (simp add: Let_def tw' n)
    then show ?thesis by (simp only: cs append_Cons)
  qed
qed

lemma parse_number_text:
  assumes "rest = [] \<or> hd rest \<in> {CHR '','', CHR '']'', CHR ''}''}"
  shows "parse_number (str_int i @ rest) = Some (JInt i, rest)"
proof (cases "i < 0")
  case True
  then show ?thesis
    using parse_digits_text[OF assms, of True "nat (- i)"]
    by (simp add: parse_number_def str_int_def)
next
  case False
  have "hd (str_nat (nat i)) \<noteq> CHR ''-''"
    using str_nat_digits[of "nat i"] str_nat_nonempty[of "nat i"]
    by (cases "str_nat (nat i)") (auto simp: is_digit_def)
  then show ?thesis
    using False parse_digits_text[OF assms, of False "nat i"] str_nat_nonempty[of "nat i"]
    by (simp add: parse_number_def str_int_def)
qed

lemma hex_val_hex_char: "d < 16 \<Longrightarrow> hex_val (hex_char d) = Some d"
proof -
  assume "d < 16"
  then have "d \<in> {0, 1, 2, 3, 4, 5, 6, 7, 8, 9, 10, 11, 12, 13, 14, 15}" by auto arith
  then show ?thesis
    by (elim insertE emptyE) (simp_all add: hex_char_def hex_val_def)
qed

lemma escape_special:
  "json_escape_char dquote = [backslash, dquote]"
  "json_escape_char backslash = [backslash, backslash]"
  "json_escape_char (CHR 0x0A) = [backslash, CHR ''n'']"
  "json_escape_char (CHR 0x0D) = [backslash, CHR ''r'']"
  "json_escape_char (CHR 0x09) = [backslash, CHR ''t'']"
  "json_escape_char (CHR 0x08) = [backslash, CHR ''b'']"
  "json_escape_char (CHR 0x0C) = [backslash, CHR ''f'']"
  by (simp_all add: json_escape_char_def dquote_def backslash_def)

lemma scan_unescape:
  "e \<noteq> CHR ''u'' \<Longrightarrow> unescape e = Some ch \<Longrightarrow>
   scan_string (backslash # e # t) = prepend ch (scan_string t)"
  by (simp add: backslash_def dquote_def)

lemma unescape_special:
  "unescape dquote = Some dquote"
  "unescape backslash = Some backslash"
  "unescape CHR ''n'' = Some (CHR 0x0A)"
  "unescape CHR ''r'' = Some (CHR 0x0D)"
  "unescape CHR ''t'' = Some (CHR 0x09)"
  "unescape CHR ''b'' = Some (CHR 0x08)"
  "unescape CHR ''f'' = Some (CHR 0x0C)"
  by (simp_all add: unescape_def dquote_def backslash_def)

lemma not_u: "dquote \<noteq> CHR ''u''" "backslash \<noteq> CHR ''u''"
  by (simp_all add: dquote_def backslash_def)

lemma scan_escape_special:
  assumes "c \<in> {dquote, backslash, CHR 0x0A, CHR 0x0D, CHR 0x09, CHR 0x08, CHR 0x0C}"
  shows "scan_string (json_escape_char c @ t) = prepend c (scan_string t)"
  using assms
  by (elim insertE emptyE)
     (simp_all only: escape_special append_Cons append_Nil,
      simp_all add: scan_unescape unescape_special not_u del: scan_string.simps)

lemma scan_escape_control:
  assumes "c \<notin> {dquote, backslash, CHR 0x0A, CHR 0x0D, CHR 0x09, CHR 0x08, CHR 0x0C}"
    and "(of_char c :: nat) < 32"
  shows "scan_string (json_escape_char c @ t) = prepend c (scan_string t)"
proof -
  let ?n = "of_char c :: nat"
  have "?n div 16 < 16" "?n mod 16 < 16" using assms(2) by auto
  then have h: "hex_val (hex_char (?n div 16)) = Some (?n div 16)"
    "hex_val (hex_char (?n mod 16)) = Some (?n mod 16)"
    by (simp_all add: hex_val_hex_char)
  have z: "hex_val CHR ''0'' = Some 0" by (simp add: hex_val_def)
  have esc: "json_escape_char c = [backslash, CHR ''u'', CHR ''0'', CHR ''0'',
      hex_char (?n div 16), hex_char (?n mod 16)]"
    using assms by (simp add: json_escape_char_def)
  have c: "char_of (16 * (?n div 16) + ?n mod 16) = c" by simp
  have "scan_string (backslash # CHR ''u'' # CHR ''0'' # CHR ''0''
          # hex_char (?n div 16) # hex_char (?n mod 16) # t)
        = prepend (char_of (16 * (?n div 16) + ?n mod 16)) (scan_string t)"
    by (subst scan_string.simps) (simp add: h z dquote_def backslash_def del: scan_string.simps)
  then show ?thesis unfolding esc c by simp
qed

lemma scan_escape_plain:
  assumes "c \<notin> {dquote, backslash, CHR 0x0A, CHR 0x0D, CHR 0x09, CHR 0x08, CHR 0x0C}"
    and "\<not> (of_char c :: nat) < 32"
  shows "scan_string (json_escape_char c @ t) = prepend c (scan_string t)"
proof -
  have "json_escape_char c = [c]" using assms by (simp add: json_escape_char_def)
  then show ?thesis using assms by simp
qed

lemma scan_escape: "scan_string (json_escape_char c @ t) = prepend c (scan_string t)"
  using scan_escape_special[of c t] scan_escape_control[of c t] scan_escape_plain[of c t]
  by blast

lemma scan_string_text:
  "scan_string (concat (map json_escape_char s) @ dquote # rest) = Some (s, rest)"
  by (induction s) (simp_all add: scan_escape prepend_def)

lemma str_int_start:
  "\<exists>c cs. str_int i = c # cs \<and> (c = CHR ''-'' \<or> is_digit c)"
proof (cases "i < 0")
  case True
  then show ?thesis by (simp add: str_int_def)
next
  case False
  obtain c cs where "str_nat (nat i) = c # cs"
    using str_nat_nonempty[of "nat i"] by (cases "str_nat (nat i)") auto
  moreover from this have "is_digit c" using str_nat_digits[of "nat i"] by simp
  ultimately show ?thesis using False by (simp add: str_int_def)
qed

lemma number_start:
  assumes "c = CHR ''-'' \<or> is_digit c"
  shows "c \<noteq> dquote" "c \<noteq> CHR ''{''" "c \<noteq> CHR ''[''" "c \<noteq> CHR ''n''" "c \<noteq> CHR ''t''"
    "c \<noteq> CHR ''f''" "\<not> json_ws c" "c \<noteq> CHR '']''"
  using assms by (auto simp: is_digit_def dquote_def json_ws_def)

lemma dumps_start: "\<exists>c cs. json_dumps v = c # cs \<and> \<not> json_ws c \<and> c \<noteq> CHR '']''"
proof (cases v)
  case JNull
  then show ?thesis by (simp add: json_ws_def)
next
  case (JBool b)
  then show ?thesis by (cases b) (simp_all add: json_ws_def)
next
  case (JInt i)
  obtain c cs where c: "str_int i = c # cs" "c = CHR ''-'' \<or> is_digit c"
    using str_int_start[of i] by blast
  have "\<not> json_ws c" "c \<noteq> CHR '']''"
    by (rule number_start(7)[OF c(2)], rule number_start(8)[OF c(2)])
  then show ?thesis using JInt c(1) by simp
next
  case (JStr s)
  then show ?thesis by (simp add: json_string_def dquote_def json_ws_def)
next
  case (JList xs)
  then show ?thesis by (simp add: json_ws_def)
next
  case (JDict d)
  then show ?thesis by (simp add: json_ws_def)
qed

lemma skip_ws_dumps: "skip_ws (json_dumps v @ r) = json_dumps v @ r"
proof -
  obtain c cs where "json_dumps v = c # cs" "\<not> json_ws c"
    using dumps_start[of v] by blast
  then show ?thesis by (simp add: skip_ws_def)
qed

lemma skip_ws_blank_dumps: "skip_ws (CHR '' '' # json_dumps v @ r) = json_dumps v @ r"
proof -
  have "json_ws CHR '' ''" by (simp add: json_ws_def)
  then have "skip_ws (CHR '' '' # json_dumps v @ r) = skip_ws (json_dumps v @ r)"
    by (simp add: skip_ws_def)
  then show ?thesis by (simp only: skip_ws_dumps)
qed

lemma join_map_Cons:
  "join sep (map f (x # xs)) = (if xs = [] then f x else f x @ sep @ join sep (map f xs))"
  by (simp add: join_Cons)

lemma elems_start:
  assumes "xs \<noteq> []"
  shows "\<exists>c r. join '', '' (map json_dumps xs) @ t = c # r \<and> \<not> json_ws c \<and> c \<noteq> CHR '']''"
proof -
  obtain y ys where xs: "xs = y # ys" using assms by (cases xs) auto
  obtain c cs where c: "json_dumps y = c # cs" "\<not> json_ws c" "c \<noteq> CHR '']''"
    using dumps_start[of y] by blast
  show ?thesis unfolding xs join_map_Cons using c by simp
qed

lemma skip_blank_elems:
  assumes "xs \<noteq> []"
  shows "skip_ws (CHR '' '' # join '', '' (map json_dumps xs) @ t)
           = join '', '' (map json_dumps xs) @ t"
proof -
  obtain c r where "join '', '' (map json_dumps xs) @ t = c # r" "\<not> json_ws c"
    using elems_start[OF assms, of t] by blast
  then show ?thesis by (simp add: skip_ws_def json_ws_def)
qed

lemma skip_ws_close: "skip_ws (CHR '']'' # r) = CHR '']'' # r"
  "skip_ws (CHR ''}'' # r) = CHR ''}'' # r" "skip_ws (CHR '','' # r) = CHR '','' # r"
  "skip_ws (CHR '':'' # r) = CHR '':'' # r"
  by (simp_all add: skip_ws_def json_ws_def)

lemma parse_elems_text:
  assumes "\<And>x fuel rest. x \<in> set xs \<Longrightarrow> size x < fuel
              \<Longrightarrow> rest = [] \<or> hd rest \<in> {CHR '','', CHR '']'', CHR ''}''}
              \<Longrightarrow> parse_value fuel (json_dumps x @ rest) = Some (x, rest)"
    and "xs \<noteq> []"
    and "size_list size xs < fuel"
  shows "parse_elems fuel (join '', '' (map json_dumps xs) @ CHR '']'' # rest) = Some (xs, rest)"
  using assms
proof (induction xs arbitrary: fuel)
  case Nil
  then show ?case by simp
next
  case (Cons x xs)
  obtain n where fuel: "fuel = Suc n" using Cons.prems(3) by (cases fuel) auto
  have sx: "size x < n" using Cons.prems(3) fuel by simp
  show ?case
  proof (cases "xs = []")
    case True
    have "parse_value n (json_dumps x @ CHR '']'' # rest) = Some (x, CHR '']'' # rest)"
      by (rule Cons.prems(1)) (simp_all add: sx)
    then show ?thesis unfolding fuel True by (simp add: skip_ws_close)
  next
    case False
    let ?R = "join '', '' (map json_dumps xs) @ CHR '']'' # rest"
    have shape: "join '', '' (map json_dumps (x # xs)) @ CHR '']'' # rest
        = json_dumps x @ CHR '','' # CHR '' '' # ?R"
      unfolding join_map_Cons using False by simp
    have pv: "parse_value n (json_dumps x @ CHR '','' # CHR '' '' # ?R)
        = Some (x, CHR '','' # CHR '' '' # ?R)"
      by (rule Cons.prems(1)) (simp_all add: sx)
    have "size_list size xs < n" using Cons.prems(3) fuel by simp
    then have IH: "parse_elems n ?R = Some (xs, rest)"
      using Cons.prems(1) False by (intro Cons.IH) auto
    have sk: "skip_ws (CHR '' '' # ?R) = ?R"
      by (rule skip_blank_elems[OF False])
    show ?thesis
      unfolding fuel shape
      using sk IH pv by (simp add: skip_ws_close)
  qed
qed

lemma members_start:
  assumes "d \<noteq> []"
  shows "\<exists>r. join '', '' (map (\<lambda>kv. json_string (fst kv) @ '': '' @ json_dumps (snd kv)) d) @ t
           = dquote # r"
proof -
  obtain kv d' where d: "d = kv # d'" using assms by (cases d) auto
  show ?thesis unfolding d join_map_Cons by (simp add: json_string_def)
qed

lemma skip_blank_members:
  assumes "d \<noteq> []"
  shows "skip_ws (CHR '' '' # join '', '' (map (\<lambda>kv. json_string (fst kv) @ '': '' @ json_dumps (snd kv)) d) @ t)
           = join '', '' (map (\<lambda>kv. json_string (fst kv) @ '': '' @ json_dumps (snd kv)) d) @ t"
proof -
  obtain r where "join '', '' (map (\<lambda>kv. json_string (fst kv) @ '': '' @ json_dumps (snd kv)) d) @ t
      = dquote # r"
    using members_start[OF assms, of t] by blast
  then show ?thesis by (simp add: skip_ws_def json_ws_def dquote_def)
qed

lemma parse_member_step:
  assumes "parse_value n (json_dumps v @ R) = Some (v, R)"
  shows "parse_members (Suc n) ((json_string k @ '': '' @ json_dumps v) @ R)
    = (case skip_ws R of
         [] \<Rightarrow> None
       | c' # r3 \<Rightarrow>
           if c' = CHR ''}'' then Some ([(k, v)], r3)
           else if c' = CHR '','' then
             (case parse_members n (skip_ws r3) of
                None \<Rightarrow> None
              | Some (kvs, r4) \<Rightarrow> Some ((k, v) # kvs, r4))
           else None)"
proof -
  have eq: "(json_string k @ '': '' @ json_dumps v) @ R
      = dquote # (concat (map json_escape_char k) @ dquote # CHR '':'' # CHR '' '' # json_dumps v @ R)"
    by (simp add: json_string_def)
  show ?thesis
    unfolding eq
    by (simp add: scan_string_text skip_ws_close skip_ws_blank_dumps assms)
qed

lemma parse_members_text:
  assumes "\<And>k v fuel rest. (k, v) \<in> set d \<Longrightarrow> size v < fuel
              \<Longrightarrow> rest = [] \<or> hd rest \<in> {CHR '','', CHR '']'', CHR ''}''}
              \<Longrightarrow> parse_value fuel (json_dumps v @ rest) = Some (v, rest)"
    and "d \<noteq> []"
    and "size_list (size_prod (\<lambda>_. 0) size) d < fuel"
  shows "parse_members fuel
           (join '', '' (map (\<lambda>kv. json_string (fst kv) @ '': '' @ json_dumps (snd kv)) d)
              @ CHR ''}'' # rest) = Some (d, rest)"
  using assms
proof (induction d arbitrary: fuel)
  case Nil
  then show ?case by simp
next
  case (Cons kv d)
  obtain k v where kv: "kv = (k, v)" by (cases kv)
  obtain n where fuel: "fuel = Suc n" using Cons.prems(3) by (cases fuel) auto
  have sv: "size v < n" using Cons.prems(3) fuel kv by simp
  let ?m = "\<lambda>kv. json_string (fst kv) @ '': '' @ json_dumps (snd kv)"
  show ?case
  proof (cases "d = []")
    case True
    have "parse_value n (json_dumps v @ CHR ''}'' # rest) = Some (v, CHR ''}'' # rest)"
      by (rule Cons.prems(1)[of k]) (simp_all add: sv kv)
    from parse_member_step[OF this, of k] show ?thesis
      unfolding fuel True kv by (simp add: skip_ws_close)
  next
    case False
    let ?R = "join '', '' (map ?m d) @ CHR ''}'' # rest"
    have shape: "join '', '' (map ?m (kv # d)) @ CHR ''}'' # rest
        = (json_string k @ '': '' @ json_dumps v) @ CHR '','' # CHR '' '' # ?R"
      unfolding join_map_Cons using False kv by simp
    have pv: "parse_value n (json_dumps v @ CHR '','' # CHR '' '' # ?R)
        = Some (v, CHR '','' # CHR '' '' # ?R)"
      by (rule Cons.prems(1)[of k]) (simp_all add: sv kv)
    have "size_list (size_prod (\<lambda>_. 0) size) d < n" using Cons.prems(3) fuel by simp
    then have IH: "parse_members n ?R = Some (d, rest)"
      using Cons.prems(1) False by (intro Cons.IH) auto
    have sk: "skip_ws (CHR '' '' # ?R) = ?R"
      by (rule skip_blank_members[OF False])
    show ?thesis
      unfolding fuel shape parse_member_step[OF pv, of k]
      using sk IH by (simp add: skip_ws_close kv)
  qed
qed

lemma parse_value_list:
  assumes "s = c # r" "\<not> json_ws c" "c \<noteq> CHR '']''"
  shows "parse_value (Suc n) (CHR ''['' # s)
           = (case parse_elems n s of None \<Rightarrow> None | Some (xs, r') \<Rightarrow> Some (JList xs, r'))"
  using assms by (simp add: skip_ws_def dquote_def)

lemma parse_value_dict:
  assumes "s = dquote # r"
  shows "parse_value (Suc n) (CHR ''{'' # s)
           = (case parse_members n s of
                None \<Rightarrow> None
              | Some (kvs, r') \<Rightarrow> Some (JDict (dict_update [] kvs), r'))"
  using assms by (simp add: skip_ws_def dquote_def json_ws_def)

lemma parse_value_dumps:
  assumes "wf_json v" and "size v < fuel"
    and "rest = [] \<or> hd rest \<in> {CHR '','', CHR '']'', CHR ''}''}"
  shows "parse_value fuel (json_dumps v @ rest) = Some (v, rest)"
  using assms
proof (induction v arbitrary: fuel rest)
  case JNull
  then obtain n where "fuel = Suc n" by (cases fuel) auto
  then show ?case by (simp add: dquote_def)
next
  case (JBool b)
  then obtain n where "fuel = Suc n" by (cases fuel) auto
  then show ?case by (cases b) (simp_all add: dquote_def)
next
  case (JInt i)
  then obtain n where fuel: "fuel = Suc n" by (cases fuel) auto
  obtain c cs where c: "str_int i = c # cs" "c = CHR ''-'' \<or> is_digit c"
    using str_int_start[of i] by blast
  note ns = number_start[OF c(2)]
  have "parse_value (Suc n) (c # (cs @ rest)) = parse_number (c # (cs @ rest))"
    using ns(1-6) by simp
  then show ?case
    using parse_number_text[OF JInt.prems(3), of i] unfolding fuel by (simp add: c(1))
next
  case (JStr s)
  then obtain n where "fuel = Suc n" by (cases fuel) auto
  then show ?case by (simp add: json_string_def scan_string_text)
next
  case (JList xs)
  then obtain n where fuel: "fuel = Suc n" by (cases fuel) auto
  show ?case
  proof (cases "xs = []")
    case True
    then show ?thesis unfolding fuel by (simp add: skip_ws_close dquote_def)
  next
    case False
    let ?s = "join '', '' (map json_dumps xs) @ CHR '']'' # rest"
    obtain c r where s: "?s = c # r" "\<not> json_ws c" "c \<noteq> CHR '']''"
      using elems_start[OF False, of "CHR '']'' # rest"] by blast
    have "parse_elems n ?s = Some (xs, rest)"
    proof (rule parse_elems_text[OF _ False])
      show "size_list size xs < n" using JList.prems(2) fuel by simp
    next
      fix x fuel' rest'
      assume "x \<in> set xs" "size x < fuel'"
        "rest' = [] \<or> hd rest' \<in> {CHR '','', CHR '']'', CHR ''}''}"
      then show "parse_value fuel' (json_dumps x @ rest') = Some (x, rest')"
        using JList.IH[of x fuel' rest'] JList.prems(1) by (simp add: list_all_iff)
    qed
    then have "parse_value (Suc n) (CHR ''['' # ?s) = Some (JList xs, rest)"
      unfolding parse_value_list[OF s] by simp
    then show ?thesis unfolding fuel by simp
  qed
next
  case (JDict d)
  then obtain n where fuel: "fuel = Suc n" by (cases fuel) auto
  show ?case
  proof (cases "d = []")
    case True
    then show ?thesis unfolding fuel by (simp add: skip_ws_close dquote_def)
  next
    case False
    let ?m = "\<lambda>kv. json_string (fst kv) @ '': '' @ json_dumps (snd kv)"
    let ?s = "join '', '' (map ?m d) @ CHR ''}'' # rest"
    obtain r where s: "?s = dquote # r"
      using members_start[OF False, of "CHR ''}'' # rest"] by blast
    have "parse_members n ?s = Some (d, rest)"
    proof (rule parse_members_text[OF _ False])
      show "size_list (size_prod (\<lambda>_. 0) size) d < n" using JDict.prems(2) fuel by simp
    next
      fix k v fuel' rest'
      assume kv: "(k, v) \<in> set d" and "size v < fuel'"
        "rest' = [] \<or> hd rest' \<in> {CHR '','', CHR '']'', CHR ''}''}"
      moreover have "wf_json v" using JDict.prems(1) kv by (auto simp: list_all_iff)
      ultimately show "parse_value fuel' (json_dumps v @ rest') = Some (v, rest')"
        using JDict.IH[of "(k, v)" v fuel' rest'] by simp
    qed
    moreover have "dict_update [] d = d"
      using dict_update_fresh[of "[]" d] JDict.prems(1) by simp
    ultimately have "parse_value (Suc n) (CHR ''{'' # ?s) = Some (JDict d, rest)"
      unfolding parse_value_dict[OF s] by simp
    then show ?thesis unfolding fuel by simp
  qed
qed

lemma length_join_ge: "sum_list (map length xs) \<le> length (join sep xs)"
  by (induction sep xs rule: join.induct) auto

lemma size_le_dumps: "size v < length (json_dumps v)"
proof (induction v)
  case (JInt i)
  then show ?case
    using str_int_start[of i] by auto
next
  case (JList xs)
  have "size_list size xs \<le> sum_list (map length (map json_dumps xs))"
    using JList.IH
  proof (induction xs)
    case Nil
    then show ?case by simp
  next
    case (Cons x xs)
    have "size x < length (json_dumps x)" using Cons.prems[of x] by simp
    moreover have "size_list size xs \<le> sum_list (map length (map json_dumps xs))"
      using Cons.prems by (intro Cons.IH) auto
    ultimately show ?case by auto
  qed
  then show ?case using length_join_ge[of "map json_dumps xs" "'', ''"] by simp
next
  case (JDict d)
  let ?m = "\<lambda>kv. json_string (fst kv) @ '': '' @ json_dumps (snd kv)"
  have "size_list (size_prod (\<lambda>_. 0) size) d \<le> sum_list (map length (map ?m d))"
    using JDict.IH
  proof (induction d)
    case Nil
    then show ?case by simp
  next
    case (Cons kv d)
    have "size (snd kv) < length (json_dumps (snd kv))"
      using Cons.prems[of kv "snd kv"] by (cases kv) auto
    moreover have "size_list (size_prod (\<lambda>_. 0) size) d \<le> sum_list (map length (map ?m d))"
      using Cons.prems by (intro Cons.IH) auto
    ultimately show ?case by (cases kv) auto
  qed
  then show ?case using length_join_ge[of "map ?m d" "'', ''"] by simp
qed (simp_all add: json_string_def)

lemma json_loads_dumps:
  assumes "wf_json v"
  shows "json_loads (json_dumps v) = Some v"
proof -
  have "skip_ws (json_dumps v) = json_dumps v" using skip_ws_dumps[of v "[]"] by simp
  moreover have "parse_value (Suc (length (json_dumps v))) (json_dumps v @ []) = Some (v, [])"
    using size_le_dumps[of v] by (intro parse_value_dumps[OF assms]) auto
  ultimately show ?thesis by (simp add: json_loads_def skip_ws_def)
qed

section \<open>Lists in the flattened row\<close>

lemma dict_update_append: "dict_update (dict_update d a) b = dict_update d (a @ b)"
  by (simp add: dict_update_def)

lemma dict_set_as_update: "dict_set d k v = dict_update d [(k, v)]"
  by (simp add: dict_update_def)

lemma flatten_fold:
  "fold (\<lambda>(key, value) items.
           case value of
             JDict d \<Rightarrow> dict_update items (flatten_record d (new_key prefix sep key) sep)
           | JList xs \<Rightarrow> dict_set items (new_key prefix sep key) (JStr (json_dumps value))
           | _ \<Rightarrow> dict_set items (new_key prefix sep key) value) es items
     = dict_update items (concat (map (entry_items prefix sep) es))"
proof (induction es arbitrary: items)
  case Nil
  then show ?case by (simp add: dict_update_def)
next
  case (Cons kv es)
  obtain k v where kv: "kv = (k, v)" by (cases kv)
  have "(case v of
           JDict d \<Rightarrow> dict_update items (flatten_record d (new_key prefix sep k) sep)
         | JList xs \<Rightarrow> dict_set items (new_key prefix sep k) (JStr (json_dumps v))
         | _ \<Rightarrow> dict_set items (new_key prefix sep k) v)
        = dict_update items (entry_items prefix sep (k, v))"
    by (cases v) (simp_all add: entry_items_def dict_set_as_update)
  then show ?case
    using Cons.IH kv by (simp add: dict_update_append)
qed

lemma flatten_as_update:
  "flatten_record es prefix sep = dict_update [] (concat (map (entry_items prefix sep) es))"
  by (subst flatten_record.simps) (rule flatten_fold)

lemma map_of_dict_update:
  "map_of (dict_update d a) k = (case map_of (rev a) k of Some v \<Rightarrow> Some v | None \<Rightarrow> map_of d k)"
proof (induction a arbitrary: d)
  case Nil
  then show ?case by (simp add: dict_update_def)
next
  case (Cons kv a)
  obtain k' v' where kv: "kv = (k', v')" by (cases kv)
  have "dict_update d (kv # a) = dict_update (dict_set d k' v') a"
    by (simp add: dict_update_def kv)
  then show ?case
    using Cons.IH[of "dict_set d k' v'"]
    by (auto simp: kv dict_set_def AList.update_conv' map_add_def split: option.splits)
qed

text \<open>Assignments to a dictionary, reordered and regrouped.\<close>

lemma dict_set_swap:
  "k \<noteq> k2 \<Longrightarrow> k \<in> fst ` set W \<Longrightarrow>
   dict_set (dict_set W k2 v2) k v = dict_set (dict_set W k v) k2 v2"
  unfolding dict_set_def by (induction W) auto

lemma dict_set_twice: "dict_set (dict_set W k v') k v = dict_set W k v"
  by (simp add: dict_set_def)

lemma dict_update_Cons: "dict_update W ((k, v) # Z) = dict_update (dict_set W k v) Z"
  by (simp add: dict_update_def)

lemma dict_set_past_update:
  "k \<notin> fst ` set Z \<Longrightarrow> k \<in> fst ` set W \<Longrightarrow>
   dict_set (dict_update W Z) k v = dict_update (dict_set W k v) Z"
proof (induction Z arbitrary: W)
  case Nil
  then show ?case by (simp add: dict_update_def)
next
  case (Cons kv Z)
  obtain k2 v2 where kv: "kv = (k2, v2)" by (cases kv)
  have ne: "k \<noteq> k2" and notin: "k \<notin> fst ` set Z" using Cons.prems(1) kv by auto
  have "k \<in> fst ` set (dict_set W k2 v2)"
    using Cons.prems(2) dict_keys_set[of W k2 v2] by (simp add: dict_keys_def)
  then have "dict_set (dict_update (dict_set W k2 v2) Z) k v
      = dict_update (dict_set (dict_set W k2 v2) k v) Z"
    by (rule Cons.IH[OF notin])
  then show ?case
    unfolding kv dict_update_Cons by (simp only: dict_set_swap[OF ne Cons.prems(2)])
qed

lemma dict_update_of_set:
  "distinct (map fst Z) \<Longrightarrow> dict_update X (dict_set Z k v) = dict_set (dict_update X Z) k v"
proof (induction Z arbitrary: X)
  case Nil
  then show ?case by (simp add: dict_update_def dict_set_def)
next
  case (Cons kv Z)
  obtain k' v' where kv: "kv = (k', v')" by (cases kv)
  show ?case
  proof (cases "k' = k")
    case True
    have notin: "k \<notin> fst ` set Z" using Cons.prems kv True by auto
    have "k \<in> fst ` set (dict_set X k v')"
      using dict_keys_set[of X k v'] by (simp add: dict_keys_def)
    then have "dict_set (dict_update (dict_set X k v') Z) k v
        = dict_update (dict_set (dict_set X k v') k v) Z"
      by (rule dict_set_past_update[OF notin])
    moreover have "dict_set (kv # Z) k v = (k, v) # Z"
      using kv True by (simp add: dict_set_def)
    ultimately show ?thesis
      using kv True by (simp add: dict_update_Cons dict_set_twice)
  next
    case False
    have "dict_set (kv # Z) k v = (k', v') # dict_set Z k v"
      using kv False by (simp add: dict_set_def)
    moreover have "dict_update (dict_set X k' v') (dict_set Z k v)
        = dict_set (dict_update (dict_set X k' v') Z) k v"
      using Cons.prems by (intro Cons.IH) simp
    ultimately show ?thesis using kv by (simp add: dict_update_Cons)
  qed
qed

lemma distinct_dict_update: "distinct (map fst Y) \<Longrightarrow> distinct (map fst (dict_update Y A))"
proof (induction A arbitrary: Y)
  case Nil
  then show ?case by (simp add: dict_update_def)
next
  case (Cons kv A)
  obtain k v where kv: "kv = (k, v)" by (cases kv)
  have "distinct (map fst (dict_set Y k v))"
    using Cons.prems by (simp add: dict_set_def AList.distinct_update)
  then show ?case using Cons.IH kv by (simp add: dict_update_Cons)
qed

lemma dict_update_nested:
  "distinct (map fst Y) \<Longrightarrow> dict_update X (dict_update Y A) = dict_update (dict_update X Y) A"
proof (induction A rule: rev_induct)
  case Nil
  then show ?case by (simp add: dict_update_def)
next
  case (snoc kv A)
  obtain k v where kv: "kv = (k, v)" by (cases kv)
  have step: "dict_update W (A @ [(k, v)]) = dict_set (dict_update W A) k v" for W
    by (simp add: dict_update_def)
  have "distinct (map fst (dict_update Y A))"
    by (rule distinct_dict_update[OF snoc.prems])
  then have "dict_update X (dict_set (dict_update Y A) k v)
      = dict_set (dict_update X (dict_update Y A)) k v"
    by (rule dict_update_of_set)
  then show ?case using snoc.IH[OF snoc.prems] kv by (simp add: step)
qed

lemma dict_update_flattened:
  "dict_update X (dict_update [] A) = dict_update X A"
  using dict_update_nested[of "[]" X A] by (simp add: dict_update_def)

text \<open>
  Claim C6, amended. For every record and every entry of it whose value is a list (a
  value as Python holds it), \<^verbatim>\<open>_flatten_record\<close> assigns at the entry's dotted key one
  string, and \<^verbatim>\<open>json.loads\<close> of that string is the original list. That one assignment
  is all the entry contributes: the flattened row is the row of the entries before it,
  then the string under the entry's key, then the assignments of the row of the
  entries after it, so its keys are those of the two rows and the entry's key, and the
  list is not expanded into keys of its own. Unless a later entry flattens to the same
  dotted key and overwrites it, the string is the value the row holds at that key.
\<close>

theorem flatten_list_roundtrip:
  assumes "record = before @ (key, JList xs) # after"
    and "wf_json (JList xs)"
  shows "\<exists>s. json_loads s = Some (JList xs)
           \<and> flatten_record record prefix sep
               = dict_update (dict_set (flatten_record before prefix sep)
                                (new_key prefix sep key) (JStr s))
                   (flatten_record after prefix sep)
           \<and> set (dict_keys (flatten_record record prefix sep))
               = set (dict_keys (flatten_record before prefix sep))
                 \<union> {new_key prefix sep key}
                 \<union> set (dict_keys (flatten_record after prefix sep))
           \<and> (new_key prefix sep key \<notin> set (dict_keys (flatten_record after prefix sep))
                \<longrightarrow> map_of (flatten_record record prefix sep) (new_key prefix sep key)
                      = Some (JStr s))"
proof -
  let ?nk = "new_key prefix sep key"
  let ?s = "json_dumps (JList xs)"
  let ?A = "concat (map (entry_items prefix sep) after)"
  let ?B = "concat (map (entry_items prefix sep) before)"
  have "flatten_record record prefix sep = dict_update [] (?B @ (?nk, JStr ?s) # ?A)"
    unfolding flatten_as_update assms(1) by (simp add: entry_items_def)
  also have "\<dots> = dict_update (dict_set (dict_update [] ?B) ?nk (JStr ?s)) ?A"
    by (simp add: dict_update_append[symmetric] dict_update_Cons)
  also have "\<dots> = dict_update (dict_set (dict_update [] ?B) ?nk (JStr ?s)) (dict_update [] ?A)"
    by (simp only: dict_update_flattened)
  finally have row: "flatten_record record prefix sep
      = dict_update (dict_set (flatten_record before prefix sep) ?nk (JStr ?s))
          (flatten_record after prefix sep)"
    by (simp only: flatten_as_update)
  have keys: "set (dict_keys (flatten_record record prefix sep))
      = set (dict_keys (flatten_record before prefix sep)) \<union> {?nk}
        \<union> set (dict_keys (flatten_record after prefix sep))"
    unfolding row dict_keys_update dict_keys_set by simp
  have "map_of (flatten_record record prefix sep) ?nk = Some (JStr ?s)"
    if "?nk \<notin> set (dict_keys (flatten_record after prefix sep))"
  proof -
    have "?nk \<notin> fst ` set (rev (flatten_record after prefix sep))"
      using that by (simp add: dict_keys_def)
    then have "map_of (rev (flatten_record after prefix sep)) ?nk = None"
      by (simp add: map_of_eq_None_iff)
    then show ?thesis
      unfolding row by (simp add: map_of_dict_update dict_set_def AList.update_conv')
  qed
  then show ?thesis
    using json_loads_dumps[OF assms(2)] row keys by blast
qed

theorem flatten_list_roundtrip_witness:
  "\<exists>s. json_loads s
        = Some (JList [JDict [(''description'', JStr ''A''), (''codes'', JList [JInt 7, JNull])]])
     \<and> flatten_record list_example [] ''.''
        = [(''filing_uuid'', JStr ''abc''), (''lobbying_activities'', JStr s), (''income'', JInt 5)]
     \<and> map_of (flatten_record list_example [] ''.'') ''lobbying_activities'' = Some (JStr s)"
  using flatten_list_roundtrip[of list_example "[(''filing_uuid'', JStr ''abc'')]"
      "''lobbying_activities''"
      "[JDict [(''description'', JStr ''A''), (''codes'', JList [JInt 7, JNull])]]"
      "[(''income'', JInt 5)]" "[]" "''.''"]
  by (simp add: list_example_def new_key_def flatten_record.simps dict_keys_def dict_set_def
        dict_update_def)

text \<open>
  Claim C6 as stated fails where two paths flatten to one key: in
  \<^verbatim>\<open>{"a.b": [1], "a": {"b": 2}}\<close> the key \<^verbatim>\<open>a.b\<close> has a list value, and the flattened row
  holds the number 2 at \<^verbatim>\<open>a.b\<close>, which is no string.
\<close>

theorem flatten_collision_counterexample:
  "map_of collision_example ''a.b'' = Some (JList [JInt 1])
   \<and> flatten_record collision_example [] ''.'' = [(''a.b'', JInt 2)]"
  by (simp add: collision_example_def flatten_record.simps new_key_def dict_set_def
        dict_update_def str_int_def str_nat.simps digit_char_def)

end
